theory Spec2Isabelle
  imports Complex_Main
begin

section \<open>Python values and failures\<close>

text \<open>
  The exceptions the modelled Python code can raise.  Every function that can raise
  returns a sum: \<open>Inl\<close> the exception, \<open>Inr\<close> the value.
\<close>

datatype py_error = UnboundLocalError | ValueError | ZeroDivisionError | KeyError | IndexError
  | AssertionError | StopIteration

text \<open>
  Python list indexing \<open>xs[i]\<close>: a negative index counts from the end, an index out of
  range raises \<open>IndexError\<close>.
\<close>

definition py_index :: "'a list \<Rightarrow> int \<Rightarrow> py_error + 'a" where
  "py_index xs i =
     (if 0 \<le> i \<and> i < int (length xs) then Inr (xs ! nat i)
      else if i < 0 \<and> - int (length xs) \<le> i then Inr (xs ! nat (int (length xs) + i))
      else Inl IndexError)"

text \<open>
  A Python or numpy float as far as the modelled code compares it: a number or NaN.  Every
  ordering comparison with NaN is false, and numpy's \<open>max\<close> hands a NaN on.  Rounding is
  not modelled: the floats the code compares are inputs of the model.
\<close>

datatype pyfloat = Num real | NaN

definition fgt :: "pyfloat \<Rightarrow> real \<Rightarrow> bool" where
  "fgt x c = (case x of Num v \<Rightarrow> c < v | NaN \<Rightarrow> False)"

definition flt :: "pyfloat \<Rightarrow> real \<Rightarrow> bool" where
  "flt x c = (case x of Num v \<Rightarrow> v < c | NaN \<Rightarrow> False)"

fun fmax :: "pyfloat \<Rightarrow> pyfloat \<Rightarrow> pyfloat" where
  "fmax (Num a) (Num b) = Num (max a b)"
| "fmax _ _ = NaN"

section \<open>evaluate.py: the co-visibility cluster builder\<close>

text \<open>
  \<open>img_cluster\<close> is a dict from image id to a Python set of image ids (built once by
  \<open>get_img_cluster\<close>).  Inside \<open>local_matching\<close>, for one query:
  \<^verbatim>\<open>
  cluster_orig_ids = [image_ids[indices[query_id][0]]]
  if args.cluster:
      cluster_query = [img_cluster[i] for i in cluster_orig_ids]
      for i, ind in enumerate(indices[query_id]):
          ind = image_ids[ind]
          if i == 0:
              continue
          point_set = img_cluster[ind]
          disjoint = False
          for j, c in enumerate(cluster_query):
              if ind in c:
                  cluster_query[j] |= point_set
                  disjoint = True
                  break
          if not disjoint:
              cluster_orig_ids.append(ind)
              cluster_query.append(point_set)
  \<close>
  The elements of \<open>cluster_query\<close> are not copies: each is the very set object stored in
  \<open>img_cluster\<close> under the id that seeded the cluster, and \<open>|=\<close> on a set updates that
  object in place.  The model therefore keeps \<open>img_cluster\<close> as a store and
  \<open>cluster_query\<close> as a list of references into it.  Every key of \<open>img_cluster\<close> holds
  a set object of its own, so the key serves as the address of its object.  The ranked
  neighbour list \<open>ns\<close> is the list of image ids \<open>image_ids[ind]\<close> for \<open>ind\<close> in
  \<open>indices[query_id]\<close>.
\<close>

type_synonym img_cluster = "int \<rightharpoonup> int set"

text \<open>The set a reference points to; a reference is only ever made from a key that was
  looked up, so the \<open>None\<close> case is not reached by the builder.\<close>

definition deref :: "img_cluster \<Rightarrow> int \<Rightarrow> int set" where
  "deref st r = (case st r of None \<Rightarrow> {} | Some s \<Rightarrow> s)"

record builder_state =
  store :: img_cluster
  cluster_orig_ids :: "int list"
  cluster_query :: "int list"

text \<open>The inner \<open>for j, c in enumerate(cluster_query)\<close>: the first cluster that holds
  \<open>ind\<close> is united in place with \<open>point_set\<close> and the loop breaks (\<open>Some\<close> the updated
  store, \<open>disjoint = True\<close>); \<open>None\<close> when no cluster holds \<open>ind\<close>.\<close>

fun merge_into :: "img_cluster \<Rightarrow> int \<Rightarrow> int set \<Rightarrow> int list \<Rightarrow> img_cluster option" where
  "merge_into st ind point_set [] = None"
| "merge_into st ind point_set (c # cs) =
     (if ind \<in> deref st c then Some (st(c \<mapsto> deref st c \<union> point_set))
      else merge_into st ind point_set cs)"

text \<open>One pass of the outer loop body for a neighbour after the first;
  \<open>img_cluster[ind]\<close> raises \<open>KeyError\<close> for an id that is no key.\<close>

definition cluster_step :: "builder_state \<Rightarrow> int \<Rightarrow> py_error + builder_state" where
  "cluster_step s ind =
     (case store s ind of
        None \<Rightarrow> Inl KeyError
      | Some point_set \<Rightarrow>
          (case merge_into (store s) ind point_set (cluster_query s) of
             Some st' \<Rightarrow> Inr (s\<lparr>store := st'\<rparr>)
           | None \<Rightarrow> Inr (s\<lparr>cluster_orig_ids := cluster_orig_ids s @ [ind],
                             cluster_query := cluster_query s @ [ind]\<rparr>)))"

fun cluster_loop :: "builder_state \<Rightarrow> int list \<Rightarrow> py_error + builder_state" where
  "cluster_loop s [] = Inr s"
| "cluster_loop s (ind # rest) =
     (case cluster_step s ind of Inl e \<Rightarrow> Inl e | Inr s' \<Rightarrow> cluster_loop s' rest)"

text \<open>The whole builder: \<open>indices[query_id][0]\<close> raises \<open>IndexError\<close> on an empty
  neighbour list, the first neighbour seeds the first cluster, the others go through the
  loop.  The result holds the updated \<open>img_cluster\<close> as well.\<close>

definition build_clusters :: "img_cluster \<Rightarrow> int list \<Rightarrow> py_error + builder_state" where
  "build_clusters ic ns =
     (case ns of
        [] \<Rightarrow> Inl IndexError
      | n0 # rest \<Rightarrow>
          (case ic n0 of
             None \<Rightarrow> Inl KeyError
           | Some _ \<Rightarrow>
               cluster_loop \<lparr>store = ic, cluster_orig_ids = [n0], cluster_query = [n0]\<rparr> rest))"

text \<open>The clusters as values: what iterating over \<open>cluster_query\<close> yields afterwards.\<close>

definition clusters_of :: "builder_state \<Rightarrow> int set list" where
  "clusters_of s = map (deref (store s)) (cluster_query s)"

definition cluster_union :: "builder_state \<Rightarrow> int set" where
  "cluster_union s = \<Union> (set (clusters_of s))"

subsection \<open>The cluster builder as the specification words it\<close>

text \<open>
  Written from the specification, not from the code, for comparison with
  \<open>build_clusters\<close>: the co-visibility map \<open>cov\<close> is read-only and a cluster is a plain
  set.  \<open>spec_absorb n cs\<close> unites the co-visibility set of \<open>n\<close> into the first cluster
  (in creation order) that contains \<open>n\<close>, and appends it as a new cluster when none does.
\<close>

fun spec_absorb :: "int \<Rightarrow> int set \<Rightarrow> int set list \<Rightarrow> int set list" where
  "spec_absorb n cov_n [] = [cov_n]"
| "spec_absorb n cov_n (c # cs) =
     (if n \<in> c then (c \<union> cov_n) # cs else c # spec_absorb n cov_n cs)"

definition spec_cluster_builder :: "(int \<Rightarrow> int set) \<Rightarrow> int list \<Rightarrow> int set list" where
  "spec_cluster_builder cov ns =
     (case ns of
        [] \<Rightarrow> []
      | n0 # rest \<Rightarrow> foldl (\<lambda>cs n. spec_absorb n (cov n) cs) [cov n0] rest)"

subsection \<open>get\_img\_cluster: the precomputed co-visibility map\<close>

text \<open>
  \<^verbatim>\<open>
  def get_img_cluster(images, points3d):
      img_cluster = {img: set() for img in images.keys()}
      for p_id in points3d.keys():
          img_ids = set(points3d[p_id].image_ids)
          for img_id in img_ids:
              img_cluster[img_id] |= img_ids
      return img_cluster
  \<close>
  \<open>image_keys\<close> are the keys of \<open>images\<close> and \<open>points3d\<close> the \<open>image_ids\<close> of every 3D
  point, in the order of the dict.  Python iterates the set \<open>img_ids\<close> in an order of its
  own; the model takes the order of first occurrence.  Every key gets a set object of its
  own.  \<open>covisible\<close> is the co-visibility set in closed form: the images of all 3D points
  that the image observes.
\<close>

fun add_point_images :: "img_cluster \<Rightarrow> int set \<Rightarrow> int list \<Rightarrow> py_error + img_cluster" where
  "add_point_images ic img_ids [] = Inr ic"
| "add_point_images ic img_ids (img_id # rest) =
     (case ic img_id of
        None \<Rightarrow> Inl KeyError
      | Some s \<Rightarrow> add_point_images (ic(img_id \<mapsto> s \<union> img_ids)) img_ids rest)"

fun points_loop :: "img_cluster \<Rightarrow> int list list \<Rightarrow> py_error + img_cluster" where
  "points_loop ic [] = Inr ic"
| "points_loop ic (image_ids # points) =
     (case add_point_images ic (set image_ids) (remdups image_ids) of
        Inl e \<Rightarrow> Inl e
      | Inr ic' \<Rightarrow> points_loop ic' points)"

definition get_img_cluster :: "int list \<Rightarrow> int list list \<Rightarrow> py_error + img_cluster" where
  "get_img_cluster image_keys points3d =
     points_loop (map_of (map (\<lambda>img. (img, {})) image_keys)) points3d"

definition covisible :: "int list list \<Rightarrow> int \<Rightarrow> int set" where
  "covisible points3d img = \<Union> (set (map set (filter (\<lambda>image_ids. img \<in> set image_ids) points3d)))"


subsection \<open>The builder over the queries of one run\<close>

text \<open>
  \<open>setup\<close> calls \<open>get_img_cluster\<close> once and \<open>local_matching\<close> receives the dict; its
  loop \<open>for query_id, (query_name, cam_id) in enumerate(query_images)\<close> runs the builder
  for every query on that same dict.  Nothing copies or rebuilds it between two queries,
  so the sets a query has united in place are what the next query looks up.
  \<open>cluster_queries\<close> threads the store through the ranked neighbour lists of the queries,
  in order, and returns the clusters of every query as values;
  \<open>local_matching_clusters\<close> starts from the map of \<open>get_img_cluster\<close>.
\<close>

fun cluster_queries :: "img_cluster \<Rightarrow> int list list \<Rightarrow> py_error + int set list list" where
  "cluster_queries ic [] = Inr []"
| "cluster_queries ic (ns # later_queries) =
     (case build_clusters ic ns of
        Inl e \<Rightarrow> Inl e
      | Inr s \<Rightarrow>
          (case cluster_queries (store s) later_queries of
             Inl e \<Rightarrow> Inl e
           | Inr later \<Rightarrow> Inr (clusters_of s # later)))"

definition local_matching_clusters ::
  "int list \<Rightarrow> int list list \<Rightarrow> int list list \<Rightarrow> py_error + int set list list" where
  "local_matching_clusters image_keys points3d neighbours =
     (case get_img_cluster image_keys points3d of
        Inl e \<Rightarrow> Inl e
      | Inr img_cluster \<Rightarrow> cluster_queries img_cluster neighbours)"

section \<open>evaluate.py: global\_neighbors, removal of the self match\<close>

text \<open>
  In verification mode the query images are database images, and \<open>global_neighbors\<close>
  cuts each row of the ranked candidate indices:
  \<^verbatim>\<open>
  """
  For verification pipeline the closest neighbor is always the query image itself.
  Hence we remove it to simulate real conditions.
  """
  if args.verify is not None:
      indices_cut = []
      for i in range(indices.shape[0]):
          lst = []
          j = 0
          img_itself = abs(image_ids[indices[i,0]])
          for idx in indices[i,1:]:
              if abs(image_ids[idx]) != img_itself:
                  lst.append(idx)
                  j += 1
              if j >= args.n_neighbors:
                  break
          indices_cut.append(lst)
      indices = np.stack(indices_cut)
  \<close>
  A row is a list of candidate indices into \<open>image_ids\<close> (a Python list: an index out of
  range raises \<open>IndexError\<close>).  \<open>cut_loop\<close> is the inner loop with its two variables
  \<open>lst\<close> and \<open>j\<close>; the test \<open>j >= args.n_neighbors\<close> comes after the append, in both
  branches.  \<open>np.stack\<close> raises \<open>ValueError\<close> on no rows and on rows of different
  lengths.
\<close>

fun cut_loop :: "int list \<Rightarrow> int \<Rightarrow> int \<Rightarrow> int list \<Rightarrow> int list \<Rightarrow> int \<Rightarrow> py_error + int list" where
  "cut_loop image_ids img_itself n_neighbors [] lst j = Inr lst"
| "cut_loop image_ids img_itself n_neighbors (idx # rest) lst j =
     (case py_index image_ids idx of
        Inl e \<Rightarrow> Inl e
      | Inr iid \<Rightarrow>
          (if \<bar>iid\<bar> \<noteq> img_itself
           then (if j + 1 \<ge> n_neighbors then Inr (lst @ [idx])
                 else cut_loop image_ids img_itself n_neighbors rest (lst @ [idx]) (j + 1))
           else (if j \<ge> n_neighbors then Inr lst
                 else cut_loop image_ids img_itself n_neighbors rest lst j)))"

text \<open>One row: \<open>indices[i,0]\<close> names the image taken to be the query itself.\<close>

definition cut_row :: "int list \<Rightarrow> int \<Rightarrow> int list \<Rightarrow> py_error + int list" where
  "cut_row image_ids n_neighbors row =
     (case row of
        [] \<Rightarrow> Inl IndexError
      | i0 # rest \<Rightarrow>
          (case py_index image_ids i0 of
             Inl e \<Rightarrow> Inl e
           | Inr iid \<Rightarrow> cut_loop image_ids \<bar>iid\<bar> n_neighbors rest [] 0))"

fun cut_rows :: "int list \<Rightarrow> int \<Rightarrow> int list list \<Rightarrow> py_error + int list list" where
  "cut_rows image_ids n_neighbors [] = Inr []"
| "cut_rows image_ids n_neighbors (row # rows) =
     (case cut_row image_ids n_neighbors row of
        Inl e \<Rightarrow> Inl e
      | Inr lst \<Rightarrow>
          (case cut_rows image_ids n_neighbors rows of
             Inl e \<Rightarrow> Inl e
           | Inr lsts \<Rightarrow> Inr (lst # lsts)))"

definition np_stack :: "int list list \<Rightarrow> py_error + int list list" where
  "np_stack rows =
     (case rows of
        [] \<Rightarrow> Inl ValueError
      | r # rs \<Rightarrow> if list_all (\<lambda>x. length x = length r) rs then Inr rows else Inl ValueError)"

definition verify_neighbors :: "int list \<Rightarrow> int \<Rightarrow> int list list \<Rightarrow> py_error + int list list" where
  "verify_neighbors image_ids n_neighbors indices =
     (case cut_rows image_ids n_neighbors indices of
        Inl e \<Rightarrow> Inl e
      | Inr indices_cut \<Rightarrow> np_stack indices_cut)"

text \<open>A candidate index that is a valid position of \<open>image_ids\<close>, as the neighbour
  search returns them.\<close>

definition in_range :: "int list \<Rightarrow> int \<Rightarrow> bool" where
  "in_range image_ids idx = (0 \<le> idx \<and> idx < int (length image_ids))"

text \<open>\<open>abs(image_ids[idx]) == abs(image_id)\<close>: the candidate \<open>idx\<close> is the given image
  or its augmented copy, which \<open>image_ids\<close> lists under the negated id.\<close>

definition refers_to :: "int list \<Rightarrow> int \<Rightarrow> int \<Rightarrow> bool" where
  "refers_to image_ids image_id idx = (\<bar>image_ids ! nat idx\<bar> = \<bar>image_id\<bar>)"

text \<open>One cut row in closed form: of the candidates after the top-ranked one, those that
  do not refer to the image of the top-ranked one, in rank order; the first
  \<open>n_neighbors\<close> of them, and for \<open>n_neighbors < 1\<close> what the first pass of the loop
  body leaves.\<close>

definition cut_closed :: "int list \<Rightarrow> int \<Rightarrow> int list \<Rightarrow> int list" where
  "cut_closed image_ids n_neighbors row =
     (if 1 \<le> n_neighbors
      then take (nat n_neighbors)
             (filter (\<lambda>idx. \<not> refers_to image_ids (image_ids ! nat (hd row)) idx) (tl row))
      else filter (\<lambda>idx. \<not> refers_to image_ids (image_ids ! nat (hd row)) idx) (take 1 (tl row)))"

subsection \<open>The self-match removal as the specification words it\<close>

text \<open>
  Written from the specification, not from the code: the query image is known, every
  candidate that refers to it is skipped, and the others are accumulated in rank order up
  to \<open>k\<close> of them.
\<close>

definition spec_self_removal :: "int list \<Rightarrow> int \<Rightarrow> int \<Rightarrow> int list \<Rightarrow> int list" where
  "spec_self_removal image_ids query_image k row =
     take (nat k) (filter (\<lambda>idx. \<not> refers_to image_ids query_image idx) row)"

section \<open>evaluate.py: stats, the reasons of wrongly localised queries\<close>

text \<open>
  The arrays \<open>errors\<close>, \<open>errors_rot\<close>, \<open>inlier_nums\<close>, \<open>inlier_rates\<close> and the rows of
  \<open>top_neighbor_match\<close> hold one entry per query.  numpy's elementwise operations are
  maps over lists (numpy raises on operands of different shapes; \<open>zip\<close> would cut them,
  so the properties below assume one entry per query in each), \<open>np.sum\<close> of a boolean
  array counts its true entries, and \<open>max(axis=1)\<close> raises \<open>ValueError\<close> on rows without
  columns.
\<close>

definition np_gt :: "pyfloat list \<Rightarrow> real \<Rightarrow> bool list" where
  "np_gt xs c = map (\<lambda>x. fgt x c) xs"

definition np_lt :: "pyfloat list \<Rightarrow> real \<Rightarrow> bool list" where
  "np_lt xs c = map (\<lambda>x. flt x c) xs"

definition logical_and :: "bool list \<Rightarrow> bool list \<Rightarrow> bool list" where
  "logical_and xs ys = map2 (\<and>) xs ys"

definition logical_or :: "bool list \<Rightarrow> bool list \<Rightarrow> bool list" where
  "logical_or xs ys = map2 (\<or>) xs ys"

definition logical_not :: "bool list \<Rightarrow> bool list" where
  "logical_not xs = map Not xs"

definition np_sum :: "bool list \<Rightarrow> nat" where
  "np_sum xs = sum_list (map of_bool xs)"

definition np_any :: "bool list \<Rightarrow> bool" where
  "np_any xs = list_ex (\<lambda>b. b) xs"

definition row_max :: "pyfloat list \<Rightarrow> py_error + pyfloat" where
  "row_max row = (case row of [] \<Rightarrow> Inl ValueError | x # xs \<Rightarrow> Inr (foldl fmax x xs))"

fun max_axis1 :: "pyfloat list list \<Rightarrow> py_error + pyfloat list" where
  "max_axis1 [] = Inr []"
| "max_axis1 (row # rows) =
     (case row_max row of
        Inl e \<Rightarrow> Inl e
      | Inr m \<Rightarrow> (case max_axis1 rows of Inl e \<Rightarrow> Inl e | Inr ms \<Rightarrow> Inr (m # ms)))"

text \<open>
  \<^verbatim>\<open>
  valid = np.logical_or(errors > 5.0, errors_rot > 10.0)
  if np.any(valid):
      ...
      bn = ~(top_neighbor_match.max(axis=1) > 0.0)
      bni = np.logical_and(bn, valid)
      bnc = np.logical_and(bn, ~valid)
      ...
      fi = np.logical_and(inlier_nums < 12, ~bn) #few inliers
      fii = np.logical_and(fi, valid)            #few inliers incorrect
      fic = np.logical_and(fi, ~valid)           #few inliers correct
      assert np.sum(fii)+np.sum(fic) == np.sum(fi), 'Somethings wrong I can feel it..'
      ...
      li = np.logical_and(inlier_rates < 10, np.logical_and(~fi, ~bn))
      lii = np.logical_and(li, valid)
      lic = np.logical_and(li, ~valid)
      assert np.sum(lii)+np.sum(lic) == np.sum(li), 'Somethings wrong I can feel it..'
      ...
      ot = np.logical_and(np.logical_and(~li, ~fi), ~bn)
      oti = np.logical_and(ot, valid)
      otc = np.logical_and(ot, ~valid)
      assert np.sum(oti)+np.sum(otc) == np.sum(ot), 'Somethings wrong I can feel it..'
  \<close>
  The record holds the masks the block computes (the printing and the file output between
  them are left out); the result is \<open>None\<close> when no query is wrongly localised, and a
  failed \<open>assert\<close> is the error \<open>AssertionError\<close>.
\<close>

record reasons =
  valid :: "bool list"
  bn :: "bool list"
  bni :: "bool list"
  bnc :: "bool list"
  fi :: "bool list"
  fii :: "bool list"
  fic :: "bool list"
  li :: "bool list"
  lii :: "bool list"
  lic :: "bool list"
  ot :: "bool list"
  oti :: "bool list"
  otc :: "bool list"

definition identify_reasons ::
  "pyfloat list \<Rightarrow> pyfloat list \<Rightarrow> pyfloat list list \<Rightarrow> int list \<Rightarrow> pyfloat list
     \<Rightarrow> py_error + reasons option" where
  "identify_reasons errors errors_rot top_neighbor_match inlier_nums inlier_rates =
     (let valid = logical_or (np_gt errors 5) (np_gt errors_rot 10) in
      if \<not> np_any valid then Inr None
      else
        (case max_axis1 top_neighbor_match of
           Inl e \<Rightarrow> Inl e
         | Inr mx \<Rightarrow>
            (let bn = logical_not (np_gt mx 0);
                 bni = logical_and bn valid;
                 bnc = logical_and bn (logical_not valid);
                 fi = logical_and (map (\<lambda>n. n < 12) inlier_nums) (logical_not bn);
                 fii = logical_and fi valid;
                 fic = logical_and fi (logical_not valid);
                 li = logical_and (np_lt inlier_rates 10)
                        (logical_and (logical_not fi) (logical_not bn));
                 lii = logical_and li valid;
                 lic = logical_and li (logical_not valid);
                 ot = logical_and (logical_and (logical_not li) (logical_not fi)) (logical_not bn);
                 oti = logical_and ot valid;
                 otc = logical_and ot (logical_not valid)
             in if np_sum fii + np_sum fic \<noteq> np_sum fi then Inl AssertionError
                else if np_sum lii + np_sum lic \<noteq> np_sum li then Inl AssertionError
                else if np_sum oti + np_sum otc \<noteq> np_sum ot then Inl AssertionError
                else Inr (Some \<lparr>valid = valid, bn = bn, bni = bni, bnc = bnc,
                                 fi = fi, fii = fii, fic = fic, li = li, lii = lii, lic = lic,
                                 ot = ot, oti = oti, otc = otc\<rparr>))))"

section \<open>evaluate.py: double\_matching and match\_local\<close>

text \<open>
  \<open>LocalMatcher\<close> (common/feature\_matching.py) is not among the source files, so its
  \<open>match\<close> method is a parameter of the model: it takes the query and the database
  descriptors and returns the matches as rows (query index, database index), as
  \<open>match_local\<close> reads them (\<open>query_kpts[m[0]]\<close>, \<open>pt_ids[m[1]]\<close>).
  \<^verbatim>\<open>
  def double_matching(local_matcher, query_desc, neighbor_desc):
      matches_forward = local_matcher.match(query_desc, neighbor_desc)
      matches_reverse = local_matcher.match(neighbor_desc, query_desc)
      if matches_forward.shape[0] == 0 or matches_reverse.shape[0] == 0:
          return np.array([])
      matches = []
      mr = list(matches_reverse[:,1])
      for m in matches_forward:
          if m[0] in mr:
              matches.append(m)
      matches = np.array(matches)
      return matches
  \<close>
\<close>

type_synonym 'd matcher = "'d list \<Rightarrow> 'd list \<Rightarrow> (nat \<times> nat) list"

definition double_matching :: "'d matcher \<Rightarrow> 'd list \<Rightarrow> 'd list \<Rightarrow> (nat \<times> nat) list" where
  "double_matching local_matcher query_desc neighbor_desc =
     (let matches_forward = local_matcher query_desc neighbor_desc;
          matches_reverse = local_matcher neighbor_desc query_desc
      in if matches_forward = [] \<or> matches_reverse = [] then []
         else (let mr = map snd matches_reverse
               in filter (\<lambda>m. fst m \<in> set mr) matches_forward))"

text \<open>\<open>matches = double_matching(matcher, ...)\<close> if \<open>double\<close>, else
  \<open>matcher.match(...)\<close>: the choice \<open>match_local\<close> makes at both of its matching
  passes.\<close>

definition run_matcher :: "'d matcher \<Rightarrow> bool \<Rightarrow> 'd list \<Rightarrow> 'd list \<Rightarrow> (nat \<times> nat) list" where
  "run_matcher matcher double query_desc data_desc =
     (if double then double_matching matcher query_desc data_desc
      else matcher query_desc data_desc)"

text \<open>
  numpy indexing with an array of indices, and indexing a Python list in a comprehension:
  an index out of range raises \<open>IndexError\<close>.  Indexing with a boolean mask
  \<open>a[valid[:a.shape[0]]]\<close> raises \<open>IndexError\<close> when the cut mask is shorter than \<open>a\<close>.
\<close>

definition np_take :: "'a list \<Rightarrow> nat list \<Rightarrow> py_error + 'a list" where
  "np_take xs js =
     (if list_all (\<lambda>j. j < length xs) js then Inr (map (\<lambda>j. xs ! j) js) else Inl IndexError)"

definition mask_select :: "'a list \<Rightarrow> bool list \<Rightarrow> py_error + 'a list" where
  "mask_select xs flags =
     (if length flags < length xs then Inl IndexError
      else Inr (map fst (filter snd (zip xs flags))))"

text \<open>
  \<open>match_local\<close>, for the local method Colmap (the other methods differ in where an
  image's descriptors come from).  \<open>images\<close> is the dict of the reconstruction's image
  records, of which the function reads \<open>point3D_ids\<close> (one per keypoint, not positive
  for a keypoint without 3D point); \<open>database\<close> is the table \<open>descriptors\<close> of the Colmap
  database, from image id to the descriptor rows of the image; \<open>points3d\<close> is the dict of
  the 3D points, from point id to coordinates.  \<open>clusters\<close> is \<open>cluster_query\<close>, each
  cluster as the list of its image ids in the order Python iterates it.  \<open>verify\<close> is
  \<open>Some\<close> of \<open>query_image_ids[query_id]\<close> in verification mode (\<open>args.verify\<close> set) and
  \<open>None\<close> otherwise; \<open>to_unit\<close> is \<open>to_unit_vector\<close> for the approximate matching
  methods and the identity for the exact one.
  \<^verbatim>\<open>
  def descriptors_from_colmap_db(cursor, image_id):
      cursor.execute('SELECT cols, data FROM descriptors WHERE image_id=?;',(image_id,))
      feature_dim, blob = next(cursor)
      desc = np.frombuffer(blob, dtype=np.uint8).reshape(-1, feature_dim)
      return desc

  def match_local(args, mm, query_desc, query_kpts, images, points3d, query_id,
                  cluster_query, database_cursor, model, matcher, refilter=False,
                  double=False, desc_database=None):
      matched_kpts_cv = []
      matched_pts = []
      data_descs = []
      if refilter:
          pt_ids_all = []
          data_descs = []
      if 'approx' in mm:
          query_desc = to_unit_vector(query_desc, method=mm, cuda=cuda)
      correct, incorrect = 0, 0
      if args.verify is not None and args.local_method == 'Colmap':
          valid_o = images[query_image_ids[query_id]].point3D_ids > 0
          pt_ids_o = images[query_image_ids[query_id]].point3D_ids
          pt_ids_o = pt_ids_o[:pt_ids_o.shape[0]//2]
      for c in cluster_query:
          for img in c:
              if args.verify is not None and abs(img) == abs(query_image_ids[query_id]):
                  continue
              img_name = images[abs(img)].name
              valid = images[abs(img)].point3D_ids > 0
              pt_ids = images[abs(img)].point3D_ids[valid]
              if args.local_method == 'Colmap':
                  data_desc = descriptors_from_colmap_db(database_cursor, int(img))
                  data_desc = data_desc[valid[:data_desc.shape[0]]]
              ...
              if 'approx' in mm:
                  data_desc = to_unit_vector(data_desc, method=mm, cuda=cuda)
              if double:
                  matches = double_matching(matcher, query_desc, data_desc)
              else:
                  matches = matcher.match(query_desc, data_desc)
              if matches.shape[0] > 0:
                  if refilter:
                      pt_ids_all.append(pt_ids[matches[:,1]])
                      data_descs.append(data_desc[matches[:,1]])
                  else:
                      matched_kpts_cv += [query_kpts[m[0]] for m in matches]
                      matched_pts += [pt_ids[m[1]] for m in matches]
      if refilter:
          if len(pt_ids_all) < 1 or (len(data_descs) < 2):
              matches = np.array([])
          else:
              pt_ids_all = np.concatenate(pt_ids_all)
              data_descs = np.vstack(data_descs)
              if 'approx' in mm:
                  data_descs = to_unit_vector(data_descs, method=mm, cuda=cuda)
              if double:
                  matches = double_matching(matcher, query_desc, data_descs)
              else:
                  matches = matcher.match(query_desc, data_descs)
              matched_kpts_cv = [query_kpts[m[0]] for m in matches]
              matched_pts = [pt_ids_all[m[1]] for m in matches]
              if args.verify is not None and args.local_method == 'Colmap':
                  for m1, m2 in matches:
                      if valid_o[m1]:
                          if pt_ids_o[m1] == pt_ids_all[m2]:
                              correct += 1
                          else:
                              incorrect += 1
      if len(matched_pts) > 0:
          matched_pts_xyz = np.stack([points3d[i].xyz for i in matched_pts])
          matched_keypoints = np.vstack([np.array([x.pt[0], x.pt[1]]) for x in matched_kpts_cv])
      else:
          matched_pts_xyz = np.array([])
          matched_keypoints = np.array([])
      return matched_pts_xyz, matched_keypoints, correct, incorrect
  \<close>
  The failures of the code are branches of the model: \<open>next(cursor)\<close> raises
  \<open>StopIteration\<close> when the table has no row for the id (the lookup is by \<open>int(img)\<close>,
  the image record by \<open>abs(img)\<close>); \<open>images[...]\<close> and \<open>points3d[i]\<close> raise
  \<open>KeyError\<close>, the record of the query image being looked up by
  \<open>query_image_ids[query_id]\<close> as it is, without \<open>abs\<close>; every index out of range
  raises \<open>IndexError\<close>, also \<open>valid_o[m1]\<close> and \<open>pt_ids_o[m1]\<close>, the latter into the
  first half of the query's point ids.  A keypoint is modelled by itself (\<open>x.pt\<close> is not
  taken apart).
\<close>

record db_image =
  point3D_ids :: "int list"

definition descriptors_from_colmap_db :: "(int \<rightharpoonup> 'd list) \<Rightarrow> int \<Rightarrow> py_error + 'd list" where
  "descriptors_from_colmap_db database image_id =
     (case database image_id of None \<Rightarrow> Inl StopIteration | Some desc \<Rightarrow> Inr desc)"

text \<open>The three lines before the loop: \<open>valid_o\<close> and \<open>pt_ids_o\<close> of the query image
  in verification mode.  Outside verification mode the two names stay unbound and are
  never read; the model returns two empty lists there.\<close>

definition verify_setup :: "int option \<Rightarrow> (int \<rightharpoonup> db_image) \<Rightarrow> py_error + (bool list \<times> int list)" where
  "verify_setup verify images =
     (case verify of
        None \<Rightarrow> Inr ([], [])
      | Some query_image_id \<Rightarrow>
          (case images query_image_id of
             None \<Rightarrow> Inl KeyError
           | Some im \<Rightarrow>
               Inr (map (\<lambda>p. 0 < p) (point3D_ids im),
                    take (length (point3D_ids im) div 2) (point3D_ids im))))"

text \<open>\<open>args.verify is not None and abs(img) == abs(query_image_ids[query_id])\<close>.\<close>

definition is_query :: "int option \<Rightarrow> int \<Rightarrow> bool" where
  "is_query verify img =
     (case verify of None \<Rightarrow> False | Some query_image_id \<Rightarrow> \<bar>img\<bar> = \<bar>query_image_id\<bar>)"

record ('d, 'k) match_state =
  pt_ids_all :: "int list list"
  data_descs :: "'d list list"
  matched_kpts_cv :: "'k list"
  matched_pts :: "int list"

text \<open>The body of \<open>for img in c\<close>.\<close>

definition image_step ::
  "('d list \<Rightarrow> 'd list) \<Rightarrow> 'd matcher \<Rightarrow> bool \<Rightarrow> bool \<Rightarrow> int option \<Rightarrow> (int \<rightharpoonup> db_image)
     \<Rightarrow> (int \<rightharpoonup> 'd list) \<Rightarrow> 'd list \<Rightarrow> 'k list \<Rightarrow> ('d, 'k) match_state \<Rightarrow> int
     \<Rightarrow> py_error + ('d, 'k) match_state" where
  "image_step to_unit matcher double refilter verify images database query_desc query_kpts s img =
     (if is_query verify img then Inr s
      else
        (case images \<bar>img\<bar> of
           None \<Rightarrow> Inl KeyError
         | Some im \<Rightarrow>
            (let valid = map (\<lambda>p. 0 < p) (point3D_ids im);
                 pt_ids = filter (\<lambda>p. 0 < p) (point3D_ids im)
             in case descriptors_from_colmap_db database img of
                  Inl e \<Rightarrow> Inl e
                | Inr all_desc \<Rightarrow>
                  (case mask_select all_desc valid of
                     Inl e \<Rightarrow> Inl e
                   | Inr selected_desc \<Rightarrow>
                      (let data_desc = to_unit selected_desc;
                           matches = run_matcher matcher double query_desc data_desc
                       in if matches = [] then Inr s
                          else if refilter then
                            (case np_take pt_ids (map snd matches) of
                               Inl e \<Rightarrow> Inl e
                             | Inr ids \<Rightarrow>
                                (case np_take data_desc (map snd matches) of
                                   Inl e \<Rightarrow> Inl e
                                 | Inr ds \<Rightarrow>
                                    Inr (s\<lparr>pt_ids_all := pt_ids_all s @ [ids],
                                           data_descs := data_descs s @ [ds]\<rparr>)))
                          else
                            (case np_take query_kpts (map fst matches) of
                               Inl e \<Rightarrow> Inl e
                             | Inr kps \<Rightarrow>
                                (case np_take pt_ids (map snd matches) of
                                   Inl e \<Rightarrow> Inl e
                                 | Inr ids \<Rightarrow>
                                    Inr (s\<lparr>matched_kpts_cv := matched_kpts_cv s @ kps,
                                           matched_pts := matched_pts s @ ids\<rparr>))))))))"

fun image_loop ::
  "(('d, 'k) match_state \<Rightarrow> int \<Rightarrow> py_error + ('d, 'k) match_state) \<Rightarrow> ('d, 'k) match_state
     \<Rightarrow> int list \<Rightarrow> py_error + ('d, 'k) match_state" where
  "image_loop step s [] = Inr s"
| "image_loop step s (img # c) =
     (case step s img of Inl e \<Rightarrow> Inl e | Inr s' \<Rightarrow> image_loop step s' c)"

fun clusters_loop ::
  "(('d, 'k) match_state \<Rightarrow> int \<Rightarrow> py_error + ('d, 'k) match_state) \<Rightarrow> ('d, 'k) match_state
     \<Rightarrow> int list list \<Rightarrow> py_error + ('d, 'k) match_state" where
  "clusters_loop step s [] = Inr s"
| "clusters_loop step s (c # clusters) =
     (case image_loop step s c of
        Inl e \<Rightarrow> Inl e
      | Inr s' \<Rightarrow> clusters_loop step s' clusters)"

text \<open>\<open>for m1, m2 in matches\<close>, the count of the second-pass matches that agree or
  disagree with the 3D point of the query's own keypoint.\<close>

fun count_matches ::
  "bool list \<Rightarrow> int list \<Rightarrow> int list \<Rightarrow> (nat \<times> nat) list \<Rightarrow> nat \<Rightarrow> nat \<Rightarrow> py_error + (nat \<times> nat)" where
  "count_matches valid_o pt_ids_o ids_all [] correct incorrect = Inr (correct, incorrect)"
| "count_matches valid_o pt_ids_o ids_all ((m1, m2) # matches) correct incorrect =
     (if length valid_o \<le> m1 then Inl IndexError
      else if valid_o ! m1 then
        (if length pt_ids_o \<le> m1 \<or> length ids_all \<le> m2 then Inl IndexError
         else if pt_ids_o ! m1 = ids_all ! m2
           then count_matches valid_o pt_ids_o ids_all matches (correct + 1) incorrect
           else count_matches valid_o pt_ids_o ids_all matches correct (incorrect + 1))
      else count_matches valid_o pt_ids_o ids_all matches correct incorrect)"

text \<open>The block under \<open>if refilter:\<close> after the loops.  With fewer than two
  contributing images nothing is assigned: \<open>matched_kpts_cv\<close> and \<open>matched_pts\<close> stay
  as the loops left them (empty, since the refiltering loop never appends to them).\<close>

definition second_pass ::
  "('d list \<Rightarrow> 'd list) \<Rightarrow> 'd matcher \<Rightarrow> bool \<Rightarrow> int option \<Rightarrow> bool list \<Rightarrow> int list \<Rightarrow> 'd list
     \<Rightarrow> 'k list \<Rightarrow> ('d, 'k) match_state \<Rightarrow> py_error + (('d, 'k) match_state \<times> nat \<times> nat)" where
  "second_pass to_unit matcher double verify valid_o pt_ids_o query_desc query_kpts s =
     (if length (pt_ids_all s) < 1 \<or> length (data_descs s) < 2 then Inr (s, 0, 0)
      else
        (let ids_all = concat (pt_ids_all s);
             pool = to_unit (concat (data_descs s));
             matches = run_matcher matcher double query_desc pool
         in case np_take query_kpts (map fst matches) of
              Inl e \<Rightarrow> Inl e
            | Inr kps \<Rightarrow>
               (case np_take ids_all (map snd matches) of
                  Inl e \<Rightarrow> Inl e
                | Inr ids \<Rightarrow>
                   (case (if verify = None then Inr (0, 0)
                          else count_matches valid_o pt_ids_o ids_all matches 0 0) of
                      Inl e \<Rightarrow> Inl e
                    | Inr (correct, incorrect) \<Rightarrow>
                       Inr (s\<lparr>matched_kpts_cv := kps, matched_pts := ids\<rparr>, correct, incorrect)))))"

text \<open>\<open>[points3d[i].xyz for i in matched_pts]\<close>.\<close>

fun lookup_xyz :: "(int \<rightharpoonup> 'x) \<Rightarrow> int list \<Rightarrow> py_error + 'x list" where
  "lookup_xyz points3d [] = Inr []"
| "lookup_xyz points3d (i # ids) =
     (case points3d i of
        None \<Rightarrow> Inl KeyError
      | Some xyz \<Rightarrow>
          (case lookup_xyz points3d ids of
             Inl e \<Rightarrow> Inl e
           | Inr later \<Rightarrow> Inr (xyz # later)))"

definition match_local ::
  "('d list \<Rightarrow> 'd list) \<Rightarrow> 'd matcher \<Rightarrow> bool \<Rightarrow> bool \<Rightarrow> int option \<Rightarrow> (int \<rightharpoonup> db_image)
     \<Rightarrow> (int \<rightharpoonup> 'd list) \<Rightarrow> (int \<rightharpoonup> 'x) \<Rightarrow> 'd list \<Rightarrow> 'k list \<Rightarrow> int list list
     \<Rightarrow> py_error + ('x list \<times> 'k list \<times> nat \<times> nat)" where
  "match_local to_unit matcher double refilter verify images database points3d query_desc0 query_kpts
       clusters =
     (let query_desc = to_unit query_desc0
      in case verify_setup verify images of
           Inl e \<Rightarrow> Inl e
         | Inr (valid_o, pt_ids_o) \<Rightarrow>
            (case clusters_loop
                    (image_step to_unit matcher double refilter verify images database query_desc
                       query_kpts)
                    \<lparr>pt_ids_all = [], data_descs = [], matched_kpts_cv = [], matched_pts = []\<rparr>
                    clusters of
               Inl e \<Rightarrow> Inl e
             | Inr s \<Rightarrow>
                (case (if refilter
                       then second_pass to_unit matcher double verify valid_o pt_ids_o query_desc
                              query_kpts s
                       else Inr (s, 0, 0)) of
                   Inl e \<Rightarrow> Inl e
                 | Inr (s', correct, incorrect) \<Rightarrow>
                    (case lookup_xyz points3d (matched_pts s') of
                       Inl e \<Rightarrow> Inl e
                     | Inr pts_xyz \<Rightarrow>
                        Inr (pts_xyz, matched_kpts_cv s', correct, incorrect)))))"

subsection \<open>What the refiltering pools, in closed form\<close>











subsection \<open>Refiltering as the specification words it\<close>



subsection \<open>A concrete matcher and two small databases, for evaluation\<close>

text \<open>
  Modelled from the spec: \<open>LocalMatcher.match\<close>, which is missing from the source files,
  as the exact policy of the specification (nearest database descriptor, accepted only if
  nearest / second-nearest distance is below the ratio threshold), here on descriptors
  that are single integers, with the default threshold 0.75 and no match against fewer
  than two database descriptors.  It only instantiates the matcher parameter at concrete
  inputs.
\<close>

definition nn_best :: "int \<Rightarrow> int list \<Rightarrow> nat option" where
  "nn_best x ds =
     (let dists = map (\<lambda>d. \<bar>x - d\<bar>) ds
      in if length ds < 2 then None
         else (let d1 = min_list dists;
                   j = length (takeWhile (\<lambda>d. d \<noteq> d1) dists);
                   d2 = min_list (take j dists @ drop (Suc j) dists)
               in if 4 * d1 < 3 * d2 then Some j else None))"

definition nn_match :: "int matcher" where
  "nn_match query_desc data_desc =
     concat (map (\<lambda>i. case nn_best (query_desc ! i) data_desc of None \<Rightarrow> [] | Some j \<Rightarrow> [(i, j)])
                 [0..<length query_desc])"




definition three_images :: "int \<rightharpoonup> db_image" where
  "three_images = [1 \<mapsto> \<lparr>point3D_ids = [10, 11]\<rparr>,
                   2 \<mapsto> \<lparr>point3D_ids = [20, 21]\<rparr>,
                   3 \<mapsto> \<lparr>point3D_ids = [30, 31]\<rparr>]"

definition three_images_desc :: "int \<rightharpoonup> int list" where
  "three_images_desc = [1 \<mapsto> [0, 2], 2 \<mapsto> [50, 3], 3 \<mapsto> [200, 5]]"

definition verify_images :: "int list \<Rightarrow> int \<rightharpoonup> db_image" where
  "verify_images query_ids = three_images(7 \<mapsto> \<lparr>point3D_ids = query_ids\<rparr>)"

definition example_points :: "int \<rightharpoonup> int" where
  "example_points =
     [10 \<mapsto> 1000, 11 \<mapsto> 1100, 20 \<mapsto> 2000, 21 \<mapsto> 2100, 30 \<mapsto> 3000, 31 \<mapsto> 3100]"

section \<open>evaluate.py: local\_matching, intrinsics and pose for each query\<close>

text \<open>
  The part of the loop body of \<open>local_matching\<close> after the matching.  OpenCV's solvers
  are parameters of the model (a record of the two functions called); the trace of their
  calls is part of the state, as are the Python locals that live across the iterations of
  the loop: \<open>cm\<close>, and \<open>position\<close>/\<open>quat\<close> (one field, the pose they were computed
  from), each \<open>None\<close> while the name is not bound.  A query enters with its name, the key
  \<open>query_path\<close> under which its intrinsics are looked up, and the correspondences
  \<open>match_local\<close> returned.  \<open>camera_matrices\<close> is the dict as the list of its items.
  \<^verbatim>\<open>
  backfall_cm = [camera_matrices[i]['cameraMatrix'] for i in camera_matrices]
  backfall_cm = np.stack(backfall_cm)
  backfall_cm = np.median(backfall_cm, axis=0)

  for query_id, query_name in enumerate(query_images):
      ...
      if query_path not in camera_matrices:
          print_column_entry('WARNING', '--CAMERA MATRIX UNKOWN -- USE BACKFALL --')
          camera_matrix = backfall_cm
      else:
          cm = camera_matrices[query_path]
          camera_matrix = cm['cameraMatrix']
      distortion_coeff = cm['rad_dist']
      dist_vec = np.array([distortion_coeff, 0, 0, 0])
  \<close>
\<close>

record 'cm intrinsics =
  cameraMatrix :: 'cm
  rad_dist :: real

record ('x, 'k, 'cm, 'p) cv2 =
  solvePnPRansac :: "'x list \<Rightarrow> 'k list \<Rightarrow> 'cm \<Rightarrow> real \<Rightarrow> bool \<times> 'p \<times> nat list option"
  solvePnP :: "'x list \<Rightarrow> 'k list \<Rightarrow> 'cm \<Rightarrow> real \<Rightarrow> 'p \<Rightarrow> bool \<times> 'p"

datatype cv_call = RansacCall | RefineCall

record ('x, 'k) query =
  query_name :: string
  query_path :: string
  matched_pts_xyz :: "'x list"
  matched_keypoints :: "'k list"

record ('cm, 'p) loop_state =
  cur_cm :: "'cm intrinsics option"
  cur_pose :: "'p option"
  rates :: "real list"
  nums :: "nat list"
  errs :: "(pyfloat \<times> pyfloat) list"
  out_file :: "(string \<times> 'p) list"
  calls :: "(nat \<times> cv_call) list"

definition select_intrinsics ::
  "(string \<times> 'cm intrinsics) list \<Rightarrow> 'cm \<Rightarrow> 'cm intrinsics option \<Rightarrow> string
     \<Rightarrow> py_error + ('cm \<times> real \<times> 'cm intrinsics option)" where
  "select_intrinsics camera_matrices backfall_cm cm path =
     (let (camera_matrix, cm') =
            (case map_of camera_matrices path of
               None \<Rightarrow> (backfall_cm, cm)
             | Some entry \<Rightarrow> (cameraMatrix entry, Some entry))
      in case cm' of
           None \<Rightarrow> Inl UnboundLocalError
         | Some entry \<Rightarrow> Inr (camera_matrix, rad_dist entry, cm'))"

text \<open>
  \<^verbatim>\<open>
      if matched_pts_xyz.shape[0] > 4:
          success, R_vec, translation, inliers = cv2.solvePnPRansac(
              matched_pts_xyz, matched_keypoints, camera_matrix, dist_vec,
              iterationsCount=args.n_iter, reprojectionError=args.reproj_error,
              flags=cv2.SOLVEPNP_P3P)
      else:
          inliers = None
          success = False

      if inliers is not None:
          inliers = inliers[:, 0] if len(inliers.shape) > 1 else inliers
          num_inliers = len(inliers)
          inlier_ratio = len(inliers) / len(matched_keypoints)
      else:
          num_inliers = 0
          inlier_ratio = 0
      inlier_rates.append(100.0*inlier_ratio)
      inlier_nums.append(num_inliers)
      success &= num_inliers >= args.min_inliers

      if success:
          ret, R_vec, t = cv2.solvePnP(
                      matched_pts_xyz[inliers], matched_keypoints[inliers], camera_matrix,
                      dist_vec, rvec=R_vec, tvec=translation, useExtrinsicGuess=True,
                      flags=cv2.SOLVEPNP_ITERATIVE)
          success &= ret
          ... position, quat computed from R_vec, t
  \<close>
  \<open>pose_step\<close> gives what this block leaves behind: the final \<open>success\<close>, the inlier
  count and ratio, the refined pose if the refinement ran, and the solver calls made.
  Indexing with \<open>inliers = None\<close> keeps every row.
\<close>

record 'p pose_out =
  ok :: bool
  num_inliers :: nat
  inlier_ratio :: real
  refined :: "'p option"
  cv_calls :: "cv_call list"

definition select_inliers :: "'a list \<Rightarrow> nat list option \<Rightarrow> py_error + 'a list" where
  "select_inliers xs inliers = (case inliers of None \<Rightarrow> Inr xs | Some js \<Rightarrow> np_take xs js)"

definition pose_step ::
  "('x, 'k, 'cm, 'p) cv2 \<Rightarrow> int \<Rightarrow> 'x list \<Rightarrow> 'k list \<Rightarrow> 'cm \<Rightarrow> real \<Rightarrow> py_error + 'p pose_out" where
  "pose_step cv min_inliers xyz kps camera_matrix distortion_coeff =
     (let (success, ransac_pose, inliers, calls1) =
            (if 4 < length xyz
             then (case solvePnPRansac cv xyz kps camera_matrix distortion_coeff of
                     (s, p, inl) \<Rightarrow> (s, Some p, inl, [RansacCall]))
             else (False, None, None, []))
      in case (case inliers of
                 None \<Rightarrow> Inr (0, 0)
               | Some js \<Rightarrow>
                   if length kps = 0 then Inl ZeroDivisionError
                   else Inr (length js, real (length js) / real (length kps))) of
           Inl e \<Rightarrow> Inl e
         | Inr (num, ratio) \<Rightarrow>
            if success \<and> min_inliers \<le> int num
            then (case ransac_pose of
                    None \<Rightarrow> Inl UnboundLocalError
                  | Some p \<Rightarrow>
                     (case select_inliers xyz inliers of
                        Inl e \<Rightarrow> Inl e
                      | Inr xyz_in \<Rightarrow>
                         (case select_inliers kps inliers of
                            Inl e \<Rightarrow> Inl e
                          | Inr kps_in \<Rightarrow>
                             (case solvePnP cv xyz_in kps_in camera_matrix distortion_coeff p of
                                (ret, p') \<Rightarrow>
                                  Inr \<lparr>ok = ret, num_inliers = num, inlier_ratio = ratio,
                                       refined = Some p', cv_calls = calls1 @ [RefineCall]\<rparr>))))
            else Inr \<lparr>ok = False, num_inliers = num, inlier_ratio = ratio,
                      refined = None, cv_calls = calls1\<rparr>)"

text \<open>
  \<^verbatim>\<open>
      if args.verify is not None:
          ...
          error_rot = quaternion_angular_error(rotation, quat)
          error = np.linalg.norm(position-gt)
          errors.append(error)
          errors_rot.append(error_rot)
      else:
          if success:
              position = -txq.rotate_vector(np.array(position), np.array(quat))
              out_file.write('{} {} {} {} {} {} {} {}\n'.format(name, quat[0], ...))
  \<close>
  One pass of the loop body.  In verification mode the errors are computed from
  \<open>position\<close> and \<open>quat\<close> whether or not this query succeeded; reading a local that is not
  bound raises \<open>UnboundLocalError\<close>.  \<open>pose_error\<close> stands for the two error
  computations against the ground truth of the query.
\<close>

definition process_query ::
  "bool \<Rightarrow> int \<Rightarrow> ('x, 'k, 'cm, 'p) cv2 \<Rightarrow> (string \<times> 'cm intrinsics) list \<Rightarrow> 'cm
     \<Rightarrow> (nat \<Rightarrow> 'p \<Rightarrow> pyfloat \<times> pyfloat)
     \<Rightarrow> ('cm, 'p) loop_state \<Rightarrow> nat \<Rightarrow> ('x, 'k) query \<Rightarrow> py_error + ('cm, 'p) loop_state" where
  "process_query verify min_inliers cv camera_matrices backfall_cm pose_error s query_id q =
     (case select_intrinsics camera_matrices backfall_cm (cur_cm s) (query_path q) of
        Inl e \<Rightarrow> Inl e
      | Inr (camera_matrix, distortion_coeff, cm') \<Rightarrow>
         (case pose_step cv min_inliers (matched_pts_xyz q) (matched_keypoints q)
                 camera_matrix distortion_coeff of
            Inl e \<Rightarrow> Inl e
          | Inr out \<Rightarrow>
             (let pose' = (case refined out of None \<Rightarrow> cur_pose s | Some p \<Rightarrow> Some p);
                  s1 = s\<lparr>cur_cm := cm', cur_pose := pose',
                         rates := rates s @ [100 * inlier_ratio out],
                         nums := nums s @ [num_inliers out],
                         calls := calls s @ map (\<lambda>c. (query_id, c)) (cv_calls out)\<rparr>
              in if verify
                 then (case pose' of
                         None \<Rightarrow> Inl UnboundLocalError
                       | Some p \<Rightarrow> Inr (s1\<lparr>errs := errs s @ [pose_error query_id p]\<rparr>))
                 else (if ok out
                       then (case pose' of
                               None \<Rightarrow> Inl UnboundLocalError
                             | Some p \<Rightarrow> Inr (s1\<lparr>out_file := out_file s @ [(query_name q, p)]\<rparr>))
                       else Inr s1))))"

fun query_loop ::
  "(('cm, 'p) loop_state \<Rightarrow> nat \<Rightarrow> ('x, 'k) query \<Rightarrow> py_error + ('cm, 'p) loop_state)
     \<Rightarrow> ('cm, 'p) loop_state \<Rightarrow> nat \<Rightarrow> ('x, 'k) query list \<Rightarrow> py_error + ('cm, 'p) loop_state" where
  "query_loop body s query_id [] = Inr s"
| "query_loop body s query_id (q # qs) =
     (case body s query_id q of
        Inl e \<Rightarrow> Inl e
      | Inr s' \<Rightarrow> query_loop body s' (Suc query_id) qs)"

text \<open>The loop over the queries, after the median of the known camera matrices
  (\<open>np_median\<close>, numpy's computation, is a parameter; \<open>np.stack\<close> of no matrices raises
  \<open>ValueError\<close>).\<close>

definition local_matching ::
  "bool \<Rightarrow> int \<Rightarrow> ('x, 'k, 'cm, 'p) cv2 \<Rightarrow> ('cm list \<Rightarrow> 'cm)
     \<Rightarrow> (string \<times> 'cm intrinsics) list
     \<Rightarrow> (nat \<Rightarrow> 'p \<Rightarrow> pyfloat \<times> pyfloat)
     \<Rightarrow> ('x, 'k) query list \<Rightarrow> py_error + ('cm, 'p) loop_state" where
  "local_matching verify min_inliers cv np_median camera_matrices pose_error query_images =
     (if camera_matrices = [] then Inl ValueError
      else
        (let backfall_cm = np_median (map (\<lambda>entry. cameraMatrix (snd entry)) camera_matrices)
         in query_loop
              (process_query verify min_inliers cv camera_matrices backfall_cm pose_error)
              \<lparr>cur_cm = None, cur_pose = None, rates = [], nums = [], errs = [],
                out_file = [], calls = []\<rparr>
              0 query_images))"

text \<open>What OpenCV guarantees of a RANSAC result, and \<open>match_local\<close> of its two outputs:
  as many keypoints as 3D points, and inlier indices that are positions of them.\<close>

definition ransac_sound :: "('x, 'k, 'cm, 'p) cv2 \<Rightarrow> ('x, 'k) query \<Rightarrow> bool" where
  "ransac_sound cv q =
     (length (matched_keypoints q) = length (matched_pts_xyz q)
      \<and> (\<forall>camera_matrix d.
            case snd (snd (solvePnPRansac cv (matched_pts_xyz q) (matched_keypoints q)
                             camera_matrix d)) of
              None \<Rightarrow> True
            | Some js \<Rightarrow> list_all (\<lambda>j. j < length (matched_pts_xyz q)) js))"

subsection \<open>Concrete solvers and queries, for evaluation\<close>

text \<open>A RANSAC that reports success with the first five correspondences as inliers, a
  refinement that succeeds, and a query with given correspondences.\<close>

definition cv_example :: "(nat, char, unit, nat) cv2" where
  "cv_example =
     \<lparr>solvePnPRansac = (\<lambda>xyz kps camera_matrix d. (True, 3, Some [0, 1, 2, 3, 4])),
      solvePnP = (\<lambda>xyz kps camera_matrix d p. (True, p + 7))\<rparr>"

definition query_example :: "nat list \<Rightarrow> string \<Rightarrow> (nat, char) query" where
  "query_example xyz kps =
     \<lparr>query_name = ''a.jpg'', query_path = ''query/a.jpg'',
      matched_pts_xyz = xyz, matched_keypoints = kps\<rparr>"

definition start_state :: "(unit, nat) loop_state" where
  "start_state =
     \<lparr>cur_cm = None, cur_pose = None, rates = [], nums = [], errs = [], out_file = [], calls = []\<rparr>"

section \<open>models/cirtorch\_utils/genericdataset.py: PointCloudSplit\<close>

text \<open>
  \<^verbatim>\<open>
  def __init__(self, point_list, val=False, split=15):
      self.point_list = point_list
      self.idcs = []
      for i in range(len(point_list)):
          if i % split == 0:
              if val: self.idcs.append(i)
          else:
              if not val: self.idcs.append(i)
  \<close>
  The object is a record of its two fields.  The loop runs over the indices in order with
  \<open>idcs\<close> as accumulator; \<open>i % split\<close> raises \<open>ZeroDivisionError\<close> when \<open>split\<close> is 0
  (Python's \<open>%\<close> on integers is the floored remainder, as \<open>mod\<close> on \<open>int\<close>).
\<close>

record 'a PointCloudSplit =
  point_list :: "'a list"
  idcs :: "nat list"

fun split_loop :: "bool \<Rightarrow> int \<Rightarrow> nat list \<Rightarrow> nat list \<Rightarrow> py_error + nat list" where
  "split_loop val split [] acc = Inr acc"
| "split_loop val split (i # rest) acc =
     (if split = 0 then Inl ZeroDivisionError
      else if int i mod split = 0
        then split_loop val split rest (if val then acc @ [i] else acc)
        else split_loop val split rest (if \<not> val then acc @ [i] else acc))"

definition PointCloudSplit_init :: "'a list \<Rightarrow> bool \<Rightarrow> int \<Rightarrow> py_error + 'a PointCloudSplit" where
  "PointCloudSplit_init pl val split =
     (case split_loop val split [0..<length pl] [] of
        Inl e \<Rightarrow> Inl e
      | Inr ids \<Rightarrow> Inr \<lparr>point_list = pl, idcs = ids\<rparr>)"

text \<open>
  \<^verbatim>\<open>
  def __getitem__(self, index, val=False):
      idx = self.idcs[index]
      return self.point_list[idx]
  def __len__(self):
      return len(self.idcs)
  \<close>
\<close>

definition PointCloudSplit_getitem :: "'a PointCloudSplit \<Rightarrow> int \<Rightarrow> py_error + 'a" where
  "PointCloudSplit_getitem d index =
     (case py_index (idcs d) index of
        Inl e \<Rightarrow> Inl e
      | Inr idx \<Rightarrow> py_index (point_list d) (int idx))"

definition PointCloudSplit_len :: "'a PointCloudSplit \<Rightarrow> nat" where
  "PointCloudSplit_len d = length (idcs d)"

text \<open>The indices a split with flag \<open>val\<close> selects, in closed form.\<close>

definition selected :: "bool \<Rightarrow> int \<Rightarrow> nat \<Rightarrow> nat list" where
  "selected val split n = filter (\<lambda>i. (int i mod split = 0) = val) [0..<n]"

section \<open>Properties of the cluster builder\<close>

lemma merge_into_Some:
  "merge_into st ind ps refs = Some st' \<Longrightarrow>
   \<exists>c\<in>set refs. ind \<in> deref st c \<and> st' = st(c \<mapsto> deref st c \<union> ps)"
  by (induction refs) (auto split: if_splits)

lemma merge_into_None:
  "merge_into st ind ps refs = None \<longleftrightarrow> (\<forall>c\<in>set refs. ind \<notin> deref st c)"
  by (induction refs) auto

lemma deref_upd: "deref (st(c \<mapsto> v)) r = (if r = c then v else deref st r)"
  by (simp add: deref_def)

lemma merge_into_Some_union:
  assumes "merge_into st ind ps refs = Some st'"
  shows "(\<Union>r\<in>set refs. deref st' r) = (\<Union>r\<in>set refs. deref st r) \<union> ps"
proof -
  from merge_into_Some[OF assms] obtain c where c: "c \<in> set refs"
    and st': "st' = st(c \<mapsto> deref st c \<union> ps)" by blast
  show ?thesis
    unfolding st' using c by (auto simp: deref_upd split: if_splits)
qed

lemma cluster_union_alt: "cluster_union s = (\<Union>r\<in>set (cluster_query s). deref (store s) r)"
  by (simp add: cluster_union_def clusters_of_def)

lemma cluster_step_union:
  assumes step: "cluster_step s ind = Inr s'"
    and grow: "\<And>k. deref m k \<subseteq> deref (store s) k \<and> deref (store s) k \<subseteq> deref m k \<union> cluster_union s"
  shows "cluster_union s' = cluster_union s \<union> deref m ind
       \<and> (\<forall>k. deref m k \<subseteq> deref (store s') k \<and> deref (store s') k \<subseteq> deref m k \<union> cluster_union s')"
proof -
  from step obtain ps where ps: "store s ind = Some ps"
    by (auto simp: cluster_step_def split: option.splits)
  then have dps: "deref (store s) ind = ps" by (simp add: deref_def)
  from grow[of ind] dps have ps1: "deref m ind \<subseteq> ps" and ps2: "ps \<subseteq> deref m ind \<union> cluster_union s"
    by auto
  show ?thesis
  proof (cases "merge_into (store s) ind ps (cluster_query s)")
    case None
    with step ps have s': "s' = s\<lparr>cluster_orig_ids := cluster_orig_ids s @ [ind],
                             cluster_query := cluster_query s @ [ind]\<rparr>"
      by (simp add: cluster_step_def)
    have u: "cluster_union s' = cluster_union s \<union> ps"
      by (auto simp: cluster_union_alt s' dps)
    with ps1 ps2 have u': "cluster_union s' = cluster_union s \<union> deref m ind" by auto
    have "store s' = store s" by (simp add: s')
    with grow u' show ?thesis by auto
  next
    case (Some st')
    with step ps have s': "s' = s\<lparr>store := st'\<rparr>"
      by (simp add: cluster_step_def)
    from merge_into_Some[OF Some] obtain c where c: "c \<in> set (cluster_query s)"
      and st': "st' = (store s)(c \<mapsto> deref (store s) c \<union> ps)" by blast
    have u: "cluster_union s' = cluster_union s \<union> ps"
      using merge_into_Some_union[OF Some] by (simp add: cluster_union_alt s')
    with ps1 ps2 have u': "cluster_union s' = cluster_union s \<union> deref m ind" by auto
    have cu: "deref (store s) c \<subseteq> cluster_union s"
      using c by (auto simp: cluster_union_alt)
    have "\<And>k. deref m k \<subseteq> deref (store s') k \<and> deref (store s') k \<subseteq> deref m k \<union> cluster_union s'"
      using grow ps2 cu unfolding u' by (auto simp: s' st' deref_upd)
    with u' show ?thesis by blast
  qed
qed

lemma cluster_loop_union:
  assumes "cluster_loop s ns = Inr s'"
    and "\<And>k. deref m k \<subseteq> deref (store s) k \<and> deref (store s) k \<subseteq> deref m k \<union> cluster_union s"
  shows "cluster_union s' = cluster_union s \<union> (\<Union>n\<in>set ns. deref m n)"
  using assms
proof (induction ns arbitrary: s)
  case Nil
  then show ?case by simp
next
  case (Cons n ns)
  from Cons.prems(1) obtain s1 where s1: "cluster_step s n = Inr s1"
    and rest: "cluster_loop s1 ns = Inr s'"
    by (auto split: sum.splits)
  from cluster_step_union[OF s1, of m] Cons.prems(2)
  have u1: "cluster_union s1 = cluster_union s \<union> deref m n"
    and g1: "\<And>k. deref m k \<subseteq> deref (store s1) k \<and> deref (store s1) k \<subseteq> deref m k \<union> cluster_union s1"
    by blast+
  from Cons.IH[OF rest g1] have "cluster_union s' = cluster_union s1 \<union> (\<Union>n\<in>set ns. deref m n)" .
  with u1 show ?case by auto
qed

lemma deref_mem_dom: "x \<in> deref st c \<Longrightarrow> c \<in> dom st"
  by (auto simp: deref_def split: option.splits)

lemma merge_into_dom:
  assumes "merge_into st ind ps refs = Some st'"
  shows "dom st' = dom st"
proof -
  from merge_into_Some[OF assms] obtain c where c: "ind \<in> deref st c"
    and st': "st' = st(c \<mapsto> deref st c \<union> ps)" by blast
  from deref_mem_dom[OF c] have "c \<in> dom st" .
  then show ?thesis unfolding st' by auto
qed

lemma cluster_step_total:
  "ind \<in> dom (store s) \<Longrightarrow> \<exists>s'. cluster_step s ind = Inr s' \<and> dom (store s') = dom (store s)"
  by (auto simp: cluster_step_def merge_into_dom split: option.splits)

lemma cluster_loop_total:
  "set ns \<subseteq> dom (store s) \<Longrightarrow> \<exists>s'. cluster_loop s ns = Inr s'"
proof (induction ns arbitrary: s)
  case Nil
  then show ?case by simp
next
  case (Cons n ns)
  then have "n \<in> dom (store s)" by simp
  from cluster_step_total[OF this] obtain s1 where s1: "cluster_step s n = Inr s1"
    and d: "dom (store s1) = dom (store s)" by blast
  with Cons.prems have "set ns \<subseteq> dom (store s1)" by simp
  from Cons.IH[OF this] s1 show ?case by simp
qed

text \<open>
  One query, from any map.  For every ranked neighbour list (not empty, every id a key of
  the map) the builder returns, and the union of the clusters it produces equals the union
  of the sets the map held for the neighbours of the list when the builder started.  The
  list may name an id more than once.  The sets of the map are the co-visibility sets for
  the first query of a run only.
\<close>

lemma cluster_union_preserved:
  assumes "ns \<noteq> []" and "set ns \<subseteq> dom ic"
  shows "\<exists>s. build_clusters ic ns = Inr s
           \<and> \<Union> (set (clusters_of s)) = (\<Union>n\<in>set ns. deref ic n)"
proof -
  from assms obtain n0 rest where ns: "ns = n0 # rest" by (cases ns) auto
  with assms obtain c0 where c0: "ic n0 = Some c0" by auto
  let ?s0 = "\<lparr>store = ic, cluster_orig_ids = [n0], cluster_query = [n0]\<rparr>"
  have b: "build_clusters ic ns = cluster_loop ?s0 rest"
    by (simp add: build_clusters_def ns c0)
  from assms ns have "set rest \<subseteq> dom (store ?s0)" by simp
  from cluster_loop_total[OF this] obtain s where s: "cluster_loop ?s0 rest = Inr s" by blast
  have u0: "cluster_union ?s0 = deref ic n0"
    by (simp add: cluster_union_alt)
  have "cluster_union s = cluster_union ?s0 \<union> (\<Union>n\<in>set rest. deref ic n)"
    by (rule cluster_loop_union[OF s]) simp
  then have "cluster_union s = (\<Union>n\<in>set ns. deref ic n)"
    by (simp add: u0 ns)
  then have "\<Union> (set (clusters_of s)) = (\<Union>n\<in>set ns. deref ic n)"
    by (simp add: cluster_union_def)
  with b s show ?thesis by simp
qed



lemma merge_into_None_absorb:
  "merge_into st ind ps refs = None \<Longrightarrow>
   spec_absorb ind ps (map (deref st) refs) = map (deref st) refs @ [ps]"
  by (induction refs) (auto split: if_splits)

lemma merge_into_Some_absorb:
  "merge_into st ind ps refs = Some st' \<Longrightarrow> distinct refs \<Longrightarrow>
   map (deref st') refs = spec_absorb ind ps (map (deref st) refs)"
proof (induction refs)
  case Nil
  then show ?case by simp
next
  case (Cons c cs)
  show ?case
  proof (cases "ind \<in> deref st c")
    case True
    with Cons.prems(1) have st': "st' = st(c \<mapsto> deref st c \<union> ps)" by simp
    from Cons.prems(2) have "c \<notin> set cs" by simp
    then have "map (deref st') cs = map (deref st) cs"
      unfolding st' by (auto simp: deref_upd)
    moreover have "deref st' c = deref st c \<union> ps"
      unfolding st' by (simp add: deref_upd)
    ultimately show ?thesis using True by simp
  next
    case False
    with Cons.prems(1) have m: "merge_into st ind ps cs = Some st'" by simp
    from merge_into_Some[OF m] obtain c' where c': "c' \<in> set cs"
      and st': "st' = st(c' \<mapsto> deref st c' \<union> ps)" by blast
    from Cons.prems(2) c' have "c \<noteq> c'" by auto
    then have same: "deref st' c = deref st c" unfolding st' by (simp add: deref_upd)
    from Cons.prems(2) have "distinct cs" by simp
    from Cons.IH[OF m this] same False show ?thesis by simp
  qed
qed

lemma cluster_loop_refines:
  assumes "distinct (cluster_query s @ ns)" and "set ns \<subseteq> dom (store s)"
  shows "\<exists>s'. cluster_loop s ns = Inr s'
           \<and> clusters_of s' = foldl (\<lambda>cs n. spec_absorb n (deref (store s) n) cs) (clusters_of s) ns"
  using assms
proof (induction ns arbitrary: s)
  case Nil
  then show ?case by simp
next
  case (Cons n ns)
  from Cons.prems(2) obtain ps where ps: "store s n = Some ps" by auto
  then have dps: "deref (store s) n = ps" by (simp add: deref_def)
  from Cons.prems(1) have dq: "distinct (cluster_query s)" and nq: "n \<notin> set (cluster_query s)"
    and nn: "n \<notin> set ns" and dn: "distinct ns" and qn: "set (cluster_query s) \<inter> set ns = {}"
    by auto
  have "\<exists>s1. cluster_step s n = Inr s1
          \<and> clusters_of s1 = spec_absorb n ps (clusters_of s)
          \<and> distinct (cluster_query s1 @ ns)
          \<and> dom (store s1) = dom (store s)
          \<and> (\<forall>k\<in>set ns. deref (store s1) k = deref (store s) k)"
  proof (cases "merge_into (store s) n ps (cluster_query s)")
    case None
    let ?s1 = "s\<lparr>cluster_orig_ids := cluster_orig_ids s @ [n], cluster_query := cluster_query s @ [n]\<rparr>"
    from None ps have "cluster_step s n = Inr ?s1" by (simp add: cluster_step_def)
    moreover have "clusters_of ?s1 = spec_absorb n ps (clusters_of s)"
      using merge_into_None_absorb[OF None] by (simp add: clusters_of_def dps)
    moreover have "distinct (cluster_query ?s1 @ ns)"
      using Cons.prems(1) by auto
    ultimately show ?thesis by auto
  next
    case (Some st')
    let ?s1 = "s\<lparr>store := st'\<rparr>"
    from Some ps have "cluster_step s n = Inr ?s1" by (simp add: cluster_step_def)
    moreover have "clusters_of ?s1 = spec_absorb n ps (clusters_of s)"
      using merge_into_Some_absorb[OF Some dq] by (simp add: clusters_of_def)
    moreover have "distinct (cluster_query ?s1 @ ns)"
      using Cons.prems(1) by auto
    moreover have "dom (store ?s1) = dom (store s)"
      using merge_into_dom[OF Some] by simp
    moreover have "\<forall>k\<in>set ns. deref (store ?s1) k = deref (store s) k"
    proof -
      from merge_into_Some[OF Some] obtain c where c: "c \<in> set (cluster_query s)"
        and st': "st' = (store s)(c \<mapsto> deref (store s) c \<union> ps)" by blast
      from c qn have "c \<notin> set ns" by auto
      then show ?thesis unfolding st' by (auto simp: deref_upd)
    qed
    ultimately show ?thesis by blast
  qed
  then obtain s1 where step: "cluster_step s n = Inr s1"
    and c1: "clusters_of s1 = spec_absorb n ps (clusters_of s)"
    and d1: "distinct (cluster_query s1 @ ns)"
    and dom1: "dom (store s1) = dom (store s)"
    and same: "\<forall>k\<in>set ns. deref (store s1) k = deref (store s) k"
    by blast
  from Cons.prems(2) dom1 have "set ns \<subseteq> dom (store s1)" by simp
  from Cons.IH[OF d1 this] obtain s' where loop: "cluster_loop s1 ns = Inr s'"
    and cl: "clusters_of s' = foldl (\<lambda>cs n. spec_absorb n (deref (store s1) n) cs) (clusters_of s1) ns"
    by blast
  have "foldl (\<lambda>cs n. spec_absorb n (deref (store s1) n) cs) (clusters_of s1) ns
      = foldl (\<lambda>cs n. spec_absorb n (deref (store s) n) cs) (clusters_of s1) ns"
    using same by (intro foldl_cong) auto
  with cl c1 dps step loop show ?case by simp
qed

text \<open>
  One query, from any map.  For every ranked neighbour list that names each database image
  once (not empty, every id a key of the map), the clusters the builder produces are those
  of the specification's words applied to the sets the map held when the builder started:
  the first neighbour seeds the first cluster with its set; every later neighbour, in rank
  order, is checked against the clusters in creation order and its set is united into the
  first cluster that already contains its id; when no cluster contains it, a new cluster
  seeded with its set is appended.
\<close>

lemma cluster_builder_refines_spec:
  assumes "ns \<noteq> []" and "distinct ns" and "set ns \<subseteq> dom ic"
  shows "\<exists>s. build_clusters ic ns = Inr s \<and> clusters_of s = spec_cluster_builder (deref ic) ns"
proof -
  from assms(1) obtain n0 rest where ns: "ns = n0 # rest" by (cases ns) auto
  with assms(3) obtain c0 where c0: "ic n0 = Some c0" by auto
  let ?s0 = "\<lparr>store = ic, cluster_orig_ids = [n0], cluster_query = [n0]\<rparr>"
  have b: "build_clusters ic ns = cluster_loop ?s0 rest"
    by (simp add: build_clusters_def ns c0)
  have "distinct (cluster_query ?s0 @ rest)" using assms(2) ns by simp
  moreover have "set rest \<subseteq> dom (store ?s0)" using assms(3) ns by simp
  ultimately obtain s where s: "cluster_loop ?s0 rest = Inr s"
    and cl: "clusters_of s = foldl (\<lambda>cs n. spec_absorb n (deref (store ?s0) n) cs) (clusters_of ?s0) rest"
    using cluster_loop_refines by blast
  from cl have "clusters_of s = spec_cluster_builder (deref ic) ns"
    by (simp add: spec_cluster_builder_def ns clusters_of_def)
  with b s show ?thesis by simp
qed


lemma cluster_builder_refines_spec_example:
  "[1, 4, 2 :: int] \<noteq> [] \<and> distinct [1, 4, 2 :: int]
   \<and> set [1, 4, 2] \<subseteq> dom [1 \<mapsto> {1, 2}, 2 \<mapsto> {1, 2, 3}, 3 \<mapsto> {2, 3}, 4 \<mapsto> {4 :: int}]
   \<and> (\<exists>s. build_clusters [1 \<mapsto> {1, 2}, 2 \<mapsto> {1, 2, 3}, 3 \<mapsto> {2, 3}, 4 \<mapsto> {4}] [1, 4, 2] = Inr s
          \<and> clusters_of s = [{1, 2, 3}, {4}])"
proof -
  let ?ic = "[1 \<mapsto> {1, 2}, 2 \<mapsto> {1, 2, 3}, 3 \<mapsto> {2, 3}, 4 \<mapsto> {4 :: int}]"
  have h1: "[1, 4, 2 :: int] \<noteq> []" and h2: "distinct [1, 4, 2 :: int]"
    and h3: "set [1, 4, 2] \<subseteq> dom ?ic"
    by simp_all
  have sp: "spec_cluster_builder (deref ?ic) [1, 4, 2] = [{1, 2, 3}, {4}]"
    by (auto simp: spec_cluster_builder_def deref_def)
  from cluster_builder_refines_spec [OF h1 h2 h3] sp h1 h2 h3 show ?thesis
    by simp
qed

lemma cluster_union_preserved_example:
  "[1, 4, 2 :: int] \<noteq> []
   \<and> set [1, 4, 2] \<subseteq> dom [1 \<mapsto> {1, 2}, 2 \<mapsto> {1, 2, 3}, 3 \<mapsto> {2, 3}, 4 \<mapsto> {4 :: int}]
   \<and> (\<exists>s. build_clusters [1 \<mapsto> {1, 2}, 2 \<mapsto> {1, 2, 3}, 3 \<mapsto> {2, 3}, 4 \<mapsto> {4}] [1, 4, 2] = Inr s
          \<and> \<Union> (set (clusters_of s)) = {1, 2, 3, 4})"
proof -
  let ?ic = "[1 \<mapsto> {1, 2}, 2 \<mapsto> {1, 2, 3}, 3 \<mapsto> {2, 3}, 4 \<mapsto> {4 :: int}]"
  have h1: "[1, 4, 2 :: int] \<noteq> []" and h3: "set [1, 4, 2] \<subseteq> dom ?ic"
    by simp_all
  have u: "(\<Union>n\<in>set [1, 4, 2]. deref ?ic n) = {1, 2, 3, 4}"
    by (auto simp: deref_def)
  from cluster_union_preserved [OF h1 h3] u h1 h3 show ?thesis
    by simp
qed

text \<open>
  Two observations on the in-place update.  With an id named twice, a later step reads the
  set the earlier union has grown, and the result differs from the specification's
  clusters; and the map the builder was given is changed when it returns, so a later query
  of the same run starts from the grown sets.
\<close>

lemma build_clusters_repeated_id:
  "\<exists>s. build_clusters [1 \<mapsto> {2}, 2 \<mapsto> {3}] [1, 2, 1] = Inr s
      \<and> clusters_of s = [{2, 3}, {2, 3}]
      \<and> spec_cluster_builder (deref [1 \<mapsto> {2}, 2 \<mapsto> {3}]) [1, 2, 1] = [{2, 3}, {2}]"
  by (auto simp: build_clusters_def cluster_step_def deref_def clusters_of_def
      spec_cluster_builder_def)

lemma build_clusters_updates_map:
  "\<exists>s. build_clusters [1 \<mapsto> {1, 2}, 2 \<mapsto> {1, 2, 3}, 3 \<mapsto> {2, 3}] [1, 2] = Inr s
      \<and> clusters_of s = [{1, 2, 3}]
      \<and> store s 1 = Some {1, 2, 3}"
  by (auto simp: build_clusters_def cluster_step_def deref_def clusters_of_def)

subsection \<open>The map built by get\_img\_cluster\<close>

lemma add_point_images_result:
  "set xs \<subseteq> dom ic \<Longrightarrow>
   \<exists>ic'. add_point_images ic S xs = Inr ic' \<and> dom ic' = dom ic
      \<and> (\<forall>i. deref ic' i = (if i \<in> set xs then deref ic i \<union> S else deref ic i))"
proof (induction xs arbitrary: ic)
  case Nil
  then show ?case by simp
next
  case (Cons x xs)
  from Cons.prems obtain s where s: "ic x = Some s" by auto
  let ?ic = "ic(x \<mapsto> s \<union> S)"
  from Cons.prems s have "set xs \<subseteq> dom ?ic" by auto
  from Cons.IH[OF this] obtain ic' where r: "add_point_images ?ic S xs = Inr ic'"
    and d: "dom ic' = dom ?ic"
    and v: "\<forall>i. deref ic' i = (if i \<in> set xs then deref ?ic i \<union> S else deref ?ic i)"
    by blast
  from s have ds: "deref ic x = s" by (simp add: deref_def)
  have "\<forall>i. deref ic' i = (if i \<in> set (x # xs) then deref ic i \<union> S else deref ic i)"
    using v ds by (auto simp: deref_upd)
  moreover from d s have "dom ic' = dom ic" by auto
  ultimately show ?case using r s by simp
qed

lemma points_loop_result:
  "list_all (\<lambda>p. set p \<subseteq> dom ic) points \<Longrightarrow>
   \<exists>ic'. points_loop ic points = Inr ic' \<and> dom ic' = dom ic
      \<and> (\<forall>i. deref ic' i = deref ic i \<union> covisible points i)"
proof (induction points arbitrary: ic)
  case Nil
  then show ?case by (simp add: covisible_def)
next
  case (Cons p points)
  from Cons.prems have p: "set (remdups p) \<subseteq> dom ic" and ps: "list_all (\<lambda>p. set p \<subseteq> dom ic) points"
    by simp_all
  from add_point_images_result[OF p, of "set p"] obtain ic1
    where r1: "add_point_images ic (set p) (remdups p) = Inr ic1" and d1: "dom ic1 = dom ic"
      and v1: "\<forall>i. deref ic1 i = (if i \<in> set (remdups p) then deref ic i \<union> set p else deref ic i)"
    by blast
  from ps d1 have "list_all (\<lambda>p. set p \<subseteq> dom ic1) points" by simp
  from Cons.IH[OF this] obtain ic' where r: "points_loop ic1 points = Inr ic'"
    and d: "dom ic' = dom ic1"
    and v: "\<forall>i. deref ic' i = deref ic1 i \<union> covisible points i" by blast
  have "\<forall>i. deref ic' i = deref ic i \<union> covisible (p # points) i"
    using v v1 by (auto simp: covisible_def)
  with r r1 d d1 show ?case by simp
qed

lemma get_img_cluster_covisible:
  assumes "list_all (\<lambda>p. set p \<subseteq> set image_keys) points3d"
  shows "\<exists>ic. get_img_cluster image_keys points3d = Inr ic \<and> dom ic = set image_keys
           \<and> (\<forall>i. deref ic i = covisible points3d i)"
proof -
  let ?ic0 = "map_of (map (\<lambda>img. (img, {})) image_keys) :: img_cluster"
  have d0: "dom ?ic0 = set image_keys"
    by (simp add: dom_map_of_conv_image_fst image_image)
  have v0: "\<And>i. deref ?ic0 i = {}"
    by (auto simp: deref_def split: option.splits dest!: map_of_SomeD)
  from assms d0 have "list_all (\<lambda>p. set p \<subseteq> dom ?ic0) points3d" by simp
  from points_loop_result[OF this] v0 d0 show ?thesis
    by (simp add: get_img_cluster_def)
qed


subsection \<open>Two queries of one run\<close>

text \<open>
  The run of the two theorems below: four database images, three 3D points seen by the
  images \<open>[1, 2]\<close>, \<open>[2, 3]\<close> and \<open>[4]\<close>, so that the co-visibility sets are
  \<open>{1, 2}\<close>, \<open>{1, 2, 3}\<close>, \<open>{2, 3}\<close> and \<open>{4}\<close>; the first query has the ranked
  neighbours \<open>[1, 2]\<close>, the second \<open>[1, 4]\<close>.  The first query unites the set of image 2
  into the set object of image 1, which the dict keeps.
\<close>

text \<open>
  Claim C2.  The specification seeds the first cluster with the co-visibility set of the
  first neighbour and a new cluster with the co-visibility set of its neighbour.  In the
  run above the second query does start a cluster from image 1, and that cluster is
  \<open>{1, 2, 3}\<close>, the set the first query has grown, where the co-visibility set of image 1
  is \<open>{1, 2}\<close>: the clusters of the second query are \<open>[{1, 2, 3}, {4}]\<close>, those of the
  specification's words on the co-visibility sets are \<open>[{1, 2}, {4}]\<close>.
\<close>

theorem second_query_seeded_with_grown_set:
  "local_matching_clusters [1, 2, 3, 4] [[1, 2], [2, 3], [4]] [[1, 2], [1, 4]]
     = Inr [[{1, 2, 3}], [{1, 2, 3}, {4}]]
   \<and> covisible [[1, 2], [2, 3], [4]] 1 = {1, 2}
   \<and> spec_cluster_builder (covisible [[1, 2], [2, 3], [4]]) [1, 4] = [{1, 2}, {4}]"
  by (auto simp: local_matching_clusters_def get_img_cluster_def build_clusters_def
      cluster_step_def deref_def clusters_of_def spec_cluster_builder_def covisible_def)

text \<open>
  Claim C3.  The specification has the union of a query's clusters equal to the union of
  the co-visibility sets of its neighbours.  In the run above the clusters of the second
  query cover \<open>{1, 2, 3, 4}\<close>, while its neighbours 1 and 4 are co-visible with
  \<open>{1, 2, 4}\<close> only: image 3, co-visible with neither neighbour, is gained.
\<close>

theorem second_query_gains_coverage:
  "(case local_matching_clusters [1, 2, 3, 4] [[1, 2], [2, 3], [4]] [[1, 2], [1, 4]] of
      Inr [first_query, second_query] \<Rightarrow> \<Union> (set second_query) = {1, 2, 3, 4}
    | _ \<Rightarrow> False)
   \<and> (\<Union>n\<in>set [1, 4]. covisible [[1, 2], [2, 3], [4]] n) = {1, 2, 4}
   \<and> 3 \<notin> covisible [[1, 2], [2, 3], [4]] 1 \<and> 3 \<notin> covisible [[1, 2], [2, 3], [4]] 4"
  by (auto simp: local_matching_clusters_def get_img_cluster_def build_clusters_def
      cluster_step_def deref_def clusters_of_def covisible_def)

section \<open>Properties of the self-match removal\<close>

lemma cut_loop_take:
  assumes "list_all (in_range image_ids) rest" and "j < k"
  shows "cut_loop image_ids self k rest lst j
         = Inr (lst @ take (nat (k - j)) (filter (\<lambda>idx. \<bar>image_ids ! nat idx\<bar> \<noteq> self) rest))"
  using assms
proof (induction rest arbitrary: lst j)
  case Nil
  then show ?case by simp
next
  case (Cons idx rest)
  let ?P = "\<lambda>idx. \<bar>image_ids ! nat idx\<bar> \<noteq> self"
  from Cons.prems(1) have r: "in_range image_ids idx" and rs: "list_all (in_range image_ids) rest"
    by simp_all
  from r have px: "py_index image_ids idx = Inr (image_ids ! nat idx)"
    by (simp add: py_index_def in_range_def)
  show ?case
  proof (cases "?P idx")
    case True
    show ?thesis
    proof (cases "k \<le> j + 1")
      case full: True
      with Cons.prems(2) have "nat (k - j) = Suc 0" by simp
      then have "take (nat (k - j)) (filter ?P (idx # rest)) = [idx]"
        using True by simp
      moreover have "cut_loop image_ids self k (idx # rest) lst j = Inr (lst @ [idx])"
        using True full px by simp
      ultimately show ?thesis by simp
    next
      case more: False
      then have lt: "j + 1 < k" by simp
      then have "nat (k - j) = Suc (nat (k - (j + 1)))" by linarith
      then have tk: "take (nat (k - j)) (filter ?P (idx # rest))
                   = idx # take (nat (k - (j + 1))) (filter ?P rest)"
        using True by simp
      have "cut_loop image_ids self k (idx # rest) lst j
            = cut_loop image_ids self k rest (lst @ [idx]) (j + 1)"
        using True more px by simp
      also have "\<dots> = Inr ((lst @ [idx]) @ take (nat (k - (j + 1))) (filter ?P rest))"
        by (rule Cons.IH[OF rs lt])
      finally show ?thesis unfolding tk by simp
    qed
  next
    case False
    then have tk: "filter ?P (idx # rest) = filter ?P rest" by simp
    have "cut_loop image_ids self k (idx # rest) lst j = cut_loop image_ids self k rest lst j"
      using False Cons.prems(2) px by simp
    also have "\<dots> = Inr (lst @ take (nat (k - j)) (filter ?P rest))"
      by (rule Cons.IH[OF rs Cons.prems(2)])
    finally show ?thesis unfolding tk .
  qed
qed

lemma cut_loop_stop:
  assumes "list_all (in_range image_ids) rest" and "k \<le> j"
  shows "cut_loop image_ids self k rest lst j
         = Inr (lst @ filter (\<lambda>idx. \<bar>image_ids ! nat idx\<bar> \<noteq> self) (take 1 rest))"
proof (cases rest)
  case Nil
  then show ?thesis by simp
next
  case (Cons idx rest')
  with assms(1) have "in_range image_ids idx" by simp
  then have px: "py_index image_ids idx = Inr (image_ids ! nat idx)"
    by (simp add: py_index_def in_range_def)
  from assms(2) have "k \<le> j + 1" by simp
  with assms(2) px show ?thesis unfolding Cons by simp
qed

lemma cut_row_closed:
  assumes "row \<noteq> []" and "list_all (in_range image_ids) row"
  shows "cut_row image_ids k row = Inr (cut_closed image_ids k row)"
proof -
  from assms(1) obtain i0 rest where row: "row = i0 # rest" by (cases row) auto
  with assms(2) have r0: "in_range image_ids i0" and rs: "list_all (in_range image_ids) rest"
    by simp_all
  from r0 have p0: "py_index image_ids i0 = Inr (image_ids ! nat i0)"
    by (simp add: py_index_def in_range_def)
  have cr: "cut_row image_ids k row = cut_loop image_ids \<bar>image_ids ! nat i0\<bar> k rest [] 0"
    unfolding row by (simp only: cut_row_def list.case p0 sum.case)
  show ?thesis
  proof (cases "1 \<le> k")
    case True
    then have "0 < k" by simp
    from cut_loop_take[OF rs this, of "\<bar>image_ids ! nat i0\<bar>" "[]"] True show ?thesis
      unfolding cr by (simp add: cut_closed_def refers_to_def row)
  next
    case False
    then have "k \<le> 0" by simp
    from cut_loop_stop[OF rs this, of "\<bar>image_ids ! nat i0\<bar>" "[]"] False show ?thesis
      unfolding cr by (simp add: cut_closed_def refers_to_def row)
  qed
qed

lemma cut_rows_closed:
  assumes "list_all (\<lambda>row. row \<noteq> [] \<and> list_all (in_range image_ids) row) indices"
  shows "cut_rows image_ids k indices = Inr (map (cut_closed image_ids k) indices)"
  using assms by (induction indices) (simp_all add: cut_row_closed)

lemma cut_closed_free:
  "idx \<in> set (cut_closed image_ids k row) \<Longrightarrow> \<not> refers_to image_ids (image_ids ! nat (hd row)) idx"
  by (auto simp: cut_closed_def dest: in_set_takeD split: if_splits)

lemma cut_closed_length:
  "1 \<le> k \<Longrightarrow>
   length (cut_closed image_ids k row)
   = min (nat k) (length (filter (\<lambda>idx. \<not> refers_to image_ids (image_ids ! nat (hd row)) idx) (tl row)))"
  by (simp add: cut_closed_def min.commute)

text \<open>
  Claim C4 as stated fails: the code never looks at the query image.  It takes the
  top-ranked candidate for the query, so when the neighbour search ranks another image
  first, the query image stays in the list.  With the database images 7, 8, 9, the query
  image 7 and the ranking 8, 7, 9, the cut row for two neighbours is the candidates 0 and
  2, and candidate 0 is image 7; skipping the candidates that refer to the query image
  gives the candidates 1 and 2.
\<close>

theorem self_match_kept_counterexample:
  "verify_neighbors [7, 8, 9] 2 [[1, 0, 2]] = Inr [[0, 2]]
   \<and> refers_to [7, 8, 9] 7 0
   \<and> spec_self_removal [7, 8, 9] 7 2 [1, 0, 2] = [1, 2]"
  by (simp add: verify_neighbors_def np_stack_def cut_row_def py_index_def refers_to_def
      spec_self_removal_def numeral_2_eq_2)

text \<open>
  Claim C4, as amended.  In verification mode the post-processing takes the image of the
  top-ranked candidate of a query for the query image.  For every batch of rows of
  candidates (each row not empty, its candidates positions of \<open>image_ids\<close>) and every
  \<open>n_neighbors\<close>: the cut row of a query drops the top-ranked candidate, skips every later
  candidate whose image id equals the top-ranked one's up to sign, and accumulates the
  others in rank order, stopping when \<open>n_neighbors\<close> of them have been accumulated or the
  candidates are exhausted (for \<open>n_neighbors < 1\<close> it only looks at the second-ranked
  candidate); so no candidate of the cut row refers to the image of the top-ranked
  candidate, and the cut row never contains the query image when the top-ranked candidate
  refers to the query image.  The function returns the cut rows when there is at least
  one query and all cut rows have the same length, and \<open>np.stack\<close> raises
  \<open>ValueError\<close> otherwise.
\<close>

theorem top_candidate_removal:
  assumes "list_all (\<lambda>row. row \<noteq> [] \<and> list_all (in_range image_ids) row) indices"
  shows "verify_neighbors image_ids k indices = np_stack (map (cut_closed image_ids k) indices)
         \<and> (\<forall>row\<in>set indices.
               cut_row image_ids k row = Inr (cut_closed image_ids k row)
               \<and> (\<forall>idx\<in>set (cut_closed image_ids k row).
                     \<not> refers_to image_ids (image_ids ! nat (hd row)) idx)
               \<and> (refers_to image_ids query_image (hd row)
                    \<longrightarrow> \<not> list_ex (refers_to image_ids query_image) (cut_closed image_ids k row))
               \<and> (1 \<le> k \<longrightarrow> length (cut_closed image_ids k row) \<le> nat k))"
proof -
  have whole: "verify_neighbors image_ids k indices = np_stack (map (cut_closed image_ids k) indices)"
    by (simp add: verify_neighbors_def cut_rows_closed[OF assms])
  have rows: "\<forall>row\<in>set indices.
               cut_row image_ids k row = Inr (cut_closed image_ids k row)
               \<and> (\<forall>idx\<in>set (cut_closed image_ids k row).
                     \<not> refers_to image_ids (image_ids ! nat (hd row)) idx)
               \<and> (refers_to image_ids query_image (hd row)
                    \<longrightarrow> \<not> list_ex (refers_to image_ids query_image) (cut_closed image_ids k row))
               \<and> (1 \<le> k \<longrightarrow> length (cut_closed image_ids k row) \<le> nat k)"
  proof
    fix row assume "row \<in> set indices"
    with assms have ne: "row \<noteq> []" and ir: "list_all (in_range image_ids) row"
      by (simp_all add: list_all_iff)
    have a: "cut_row image_ids k row = Inr (cut_closed image_ids k row)"
      by (rule cut_row_closed[OF ne ir])
    have b: "\<forall>idx\<in>set (cut_closed image_ids k row).
               \<not> refers_to image_ids (image_ids ! nat (hd row)) idx"
      using cut_closed_free by blast
    have c: "refers_to image_ids query_image (hd row)
             \<longrightarrow> \<not> list_ex (refers_to image_ids query_image) (cut_closed image_ids k row)"
    proof
      assume q: "refers_to image_ids query_image (hd row)"
      show "\<not> list_ex (refers_to image_ids query_image) (cut_closed image_ids k row)"
      proof
        assume "list_ex (refers_to image_ids query_image) (cut_closed image_ids k row)"
        then obtain idx where i: "idx \<in> set (cut_closed image_ids k row)"
          and r: "refers_to image_ids query_image idx"
          by (auto simp: list_ex_iff)
        from q r have "refers_to image_ids (image_ids ! nat (hd row)) idx"
          by (simp add: refers_to_def)
        with b i show False by blast
      qed
    qed
    have d: "1 \<le> k \<longrightarrow> length (cut_closed image_ids k row) \<le> nat k"
      by (simp add: cut_closed_length)
    from a b c d show "cut_row image_ids k row = Inr (cut_closed image_ids k row)
               \<and> (\<forall>idx\<in>set (cut_closed image_ids k row).
                     \<not> refers_to image_ids (image_ids ! nat (hd row)) idx)
               \<and> (refers_to image_ids query_image (hd row)
                    \<longrightarrow> \<not> list_ex (refers_to image_ids query_image) (cut_closed image_ids k row))
               \<and> (1 \<le> k \<longrightarrow> length (cut_closed image_ids k row) \<le> nat k)"
      by blast
  qed
  from whole rows show ?thesis by blast
qed

theorem top_candidate_removal_witness:
  "list_all (\<lambda>row. row \<noteq> [] \<and> list_all (in_range [7, - 7, 8, 9, 10]) row)
     [[0, 1, 2, 3, 4], [2, 0, 1, 3, 4]]
   \<and> verify_neighbors [7, - 7, 8, 9, 10] 2 [[0, 1, 2, 3, 4], [2, 0, 1, 3, 4]] = Inr [[2, 3], [0, 1]]
   \<and> cut_row [7, - 7, 8, 9, 10] 2 [0, 1, 2, 3, 4] = Inr [2, 3]
   \<and> refers_to [7, - 7, 8, 9, 10] 7 (hd [0, 1, 2, 3, 4])
   \<and> \<not> list_ex (refers_to [7, - 7, 8, 9, 10] 7) [2, 3]"
proof -
  let ?ids = "[7, - 7, 8, 9, 10 :: int]"
  let ?rows = "[[0, 1, 2, 3, 4], [2, 0, 1, 3, 4 :: int]]"
  have h: "list_all (\<lambda>row. row \<noteq> [] \<and> list_all (in_range ?ids) row) ?rows"
    by (simp add: in_range_def)
  have c1: "cut_closed ?ids 2 [0, 1, 2, 3, 4] = [2, 3]"
    by (simp add: cut_closed_def refers_to_def numeral_2_eq_2)
  have c2: "cut_closed ?ids 2 [2, 0, 1, 3, 4] = [0, 1]"
    by (simp add: cut_closed_def refers_to_def numeral_2_eq_2)
  have st: "np_stack [[2, 3], [0, 1 :: int]] = Inr [[2, 3], [0, 1]]"
    by (simp add: np_stack_def)
  have q: "refers_to ?ids 7 (hd [0, 1, 2, 3, 4])"
    by (simp add: refers_to_def)
  note t = top_candidate_removal [OF h, where k = 2 and query_image = 7]
  from t have w: "verify_neighbors ?ids 2 ?rows = Inr [[2, 3], [0, 1]]"
    by (simp add: c1 c2 st)
  from t have r: "cut_row ?ids 2 [0, 1, 2, 3, 4] = Inr [2, 3]"
    by (simp add: c1)
  from t q have n: "\<not> list_ex (refers_to ?ids 7) [2, 3]"
    by (simp add: c1)
  from h w r q n show ?thesis by blast
qed

text \<open>
  Three evaluations at the edges.  With \<open>n_neighbors = 0\<close> the test after the append lets
  one neighbour through.  When the candidates of one query are exhausted before
  \<open>n_neighbors\<close> are found and those of another are not, the cut rows differ in length
  and \<open>np.stack\<close> raises; it raises as well for a batch without queries.
\<close>

lemma cut_row_zero_neighbors: "cut_row [7, 8, 9] 0 [0, 1, 2] = Inr [1]"
  by (simp add: cut_row_def py_index_def)

lemma verify_neighbors_ragged:
  "verify_neighbors [7, - 7, 8, 9] 2 [[0, 1, 2], [2, 0, 3]] = Inl ValueError"
  by (simp add: verify_neighbors_def np_stack_def cut_row_def py_index_def)

lemma verify_neighbors_no_query: "verify_neighbors image_ids k [] = Inl ValueError"
  by (simp add: verify_neighbors_def np_stack_def)

section \<open>Properties of the failure classification\<close>


lemma length_logical [simp]:
  "length (logical_and xs ys) = min (length xs) (length ys)"
  "length (logical_or xs ys) = min (length xs) (length ys)"
  "length (logical_not xs) = length xs"
  "length (np_gt fs c) = length fs"
  "length (np_lt fs c) = length fs"
  by (simp_all add: logical_and_def logical_or_def logical_not_def np_gt_def np_lt_def)

lemma nth_logical:
  "i < length xs \<Longrightarrow> i < length ys \<Longrightarrow> logical_and xs ys ! i = (xs ! i \<and> ys ! i)"
  "i < length xs \<Longrightarrow> i < length ys \<Longrightarrow> logical_or xs ys ! i = (xs ! i \<or> ys ! i)"
  "i < length xs \<Longrightarrow> logical_not xs ! i = (\<not> xs ! i)"
  by (simp_all add: logical_and_def logical_or_def logical_not_def)

lemma np_sum_nth: "np_sum xs = (\<Sum>i<length xs. of_bool (xs ! i))"
  by (simp add: np_sum_def sum_list_sum_nth atLeast0LessThan)

lemma np_sum_split:
  assumes "length xs = length v"
  shows "np_sum (logical_and xs v) + np_sum (logical_and xs (logical_not v)) = np_sum xs"
proof -
  have "np_sum (logical_and xs v) + np_sum (logical_and xs (logical_not v))
        = (\<Sum>i<length xs. of_bool (logical_and xs v ! i) + of_bool (logical_and xs (logical_not v) ! i))"
    using assms by (simp add: np_sum_nth sum.distrib)
  also have "\<dots> = (\<Sum>i<length xs. of_bool (xs ! i))"
    using assms by (intro sum.cong) (auto simp: nth_logical)
  finally show ?thesis by (simp add: np_sum_nth)
qed

lemma max_axis1_total:
  "list_all (\<lambda>r. r \<noteq> []) rows \<Longrightarrow> \<exists>ms. max_axis1 rows = Inr ms \<and> length ms = length rows"
proof (induction rows)
  case Nil
  then show ?case by simp
next
  case (Cons row rows)
  then obtain x xs where "row = x # xs" by (cases row) auto
  then have "row_max row = Inr (foldl fmax x xs)" by (simp add: row_max_def)
  with Cons show ?case by auto
qed


lemma max_axis1_nth:
  "max_axis1 rows = Inr ms \<Longrightarrow> i < length rows \<Longrightarrow> row_max (rows ! i) = Inr (ms ! i)"
proof (induction rows arbitrary: ms i)
  case Nil
  then show ?case by simp
next
  case (Cons row rows)
  from Cons.prems(1) obtain m ms' where m: "row_max row = Inr m"
    and ms': "max_axis1 rows = Inr ms'" and ms: "ms = m # ms'"
    by (auto split: sum.splits)
  show ?case
  proof (cases i)
    case 0
    with m ms show ?thesis by simp
  next
    case (Suc k)
    with Cons.prems(2) have "k < length rows" by simp
    from Cons.IH[OF ms' this] Suc ms show ?thesis by simp
  qed
qed

text \<open>
  Claim C9.  For every batch of per-query errors and statistics (one entry per query in
  each array, every row of \<open>top_neighbor_match\<close> with a column) that has a wrongly
  localised query, the classification returns without a failed assertion; the failure set
  is the queries with translation error above 5.0 or rotation error above 10.0, and a
  failure is attributed by priority: bad global neighbours (no neighbour with a match above
  0), else few inliers (below 12), else low inlier rate (below 10 per cent), else other.
  The four categories are pairwise disjoint, and the four per-category failure counts add
  up to the number of failures.
\<close>

theorem failure_reasons_partition:
  assumes le: "length errors = n" and lr: "length errors_rot = n"
    and lt: "length top_neighbor_match = n"
    and ln: "length inlier_nums = n" and li: "length inlier_rates = n"
    and rows: "list_all (\<lambda>row. row \<noteq> []) top_neighbor_match"
    and fails: "np_any (logical_or (np_gt errors 5) (np_gt errors_rot 10))"
  shows "\<exists>r. identify_reasons errors errors_rot top_neighbor_match inlier_nums inlier_rates
               = Inr (Some r)
     \<and> (\<forall>i<n. valid r ! i = (fgt (errors ! i) 5 \<or> fgt (errors_rot ! i) 10))
     \<and> (\<forall>i<n. bn r ! i = (\<exists>m. row_max (top_neighbor_match ! i) = Inr m \<and> \<not> fgt m 0))
     \<and> (\<forall>i<n. bni r ! i = (valid r ! i \<and> bn r ! i))
     \<and> (\<forall>i<n. fii r ! i = (valid r ! i \<and> \<not> bn r ! i \<and> inlier_nums ! i < 12))
     \<and> (\<forall>i<n. lii r ! i = (valid r ! i \<and> \<not> bn r ! i \<and> \<not> inlier_nums ! i < 12
                              \<and> flt (inlier_rates ! i) 10))
     \<and> (\<forall>i<n. oti r ! i = (valid r ! i \<and> \<not> bn r ! i \<and> \<not> inlier_nums ! i < 12
                              \<and> \<not> flt (inlier_rates ! i) 10))
     \<and> (\<forall>i<n. \<not> (bni r ! i \<and> fii r ! i) \<and> \<not> (bni r ! i \<and> lii r ! i) \<and> \<not> (bni r ! i \<and> oti r ! i)
              \<and> \<not> (fii r ! i \<and> lii r ! i) \<and> \<not> (fii r ! i \<and> oti r ! i) \<and> \<not> (lii r ! i \<and> oti r ! i))
     \<and> np_sum (bni r) + np_sum (fii r) + np_sum (lii r) + np_sum (oti r) = np_sum (valid r)"
proof -
  from max_axis1_total[OF rows] lt obtain mx where mx: "max_axis1 top_neighbor_match = Inr mx"
    and lmx: "length mx = n" by auto
  define V where "V = logical_or (np_gt errors 5) (np_gt errors_rot 10)"
  define B where "B = logical_not (np_gt mx 0)"
  define F where "F = logical_and (map (\<lambda>n. n < 12) inlier_nums) (logical_not B)"
  define L where "L = logical_and (np_lt inlier_rates 10) (logical_and (logical_not F) (logical_not B))"
  define T where "T = logical_and (logical_and (logical_not L) (logical_not F)) (logical_not B)"
  have lV: "length V = n" and lB: "length B = n" and lF: "length F = n"
    and lL: "length L = n" and lT: "length T = n"
    using le lr lmx ln li by (simp_all add: V_def B_def F_def L_def T_def)
  have a1: "np_sum (logical_and F V) + np_sum (logical_and F (logical_not V)) = np_sum F"
    and a2: "np_sum (logical_and L V) + np_sum (logical_and L (logical_not V)) = np_sum L"
    and a3: "np_sum (logical_and T V) + np_sum (logical_and T (logical_not V)) = np_sum T"
    using lV lF lL lT by (simp_all add: np_sum_split)
  let ?r = "\<lparr>valid = V, bn = B, bni = logical_and B V, bnc = logical_and B (logical_not V),
      fi = F, fii = logical_and F V, fic = logical_and F (logical_not V),
      li = L, lii = logical_and L V, lic = logical_and L (logical_not V),
      ot = T, oti = logical_and T V, otc = logical_and T (logical_not V)\<rparr>"
  have res: "identify_reasons errors errors_rot top_neighbor_match inlier_nums inlier_rates
             = Inr (Some ?r)"
    using fails a1 a2 a3 unfolding identify_reasons_def Let_def mx
    by (simp add: V_def[symmetric] B_def[symmetric] F_def[symmetric] L_def[symmetric] T_def[symmetric])
  have pV: "\<And>i. i < n \<Longrightarrow> V ! i = (fgt (errors ! i) 5 \<or> fgt (errors_rot ! i) 10)"
    using le lr by (simp add: V_def nth_logical np_gt_def)
  have pB: "\<And>i. i < n \<Longrightarrow> B ! i = (\<not> fgt (mx ! i) 0)"
    using lmx by (simp add: B_def nth_logical np_gt_def)
  have pB': "\<And>i. i < n \<Longrightarrow> B ! i = (\<exists>m. row_max (top_neighbor_match ! i) = Inr m \<and> \<not> fgt m 0)"
    using max_axis1_nth[OF mx] lt pB by simp
  have pF: "\<And>i. i < n \<Longrightarrow> F ! i = (inlier_nums ! i < 12 \<and> \<not> B ! i)"
    using ln lB by (simp add: F_def nth_logical)
  have pL: "\<And>i. i < n \<Longrightarrow> L ! i = (flt (inlier_rates ! i) 10 \<and> \<not> F ! i \<and> \<not> B ! i)"
    using li lB lF by (simp add: L_def nth_logical np_lt_def)
  have pT: "\<And>i. i < n \<Longrightarrow> T ! i = (\<not> L ! i \<and> \<not> F ! i \<and> \<not> B ! i)"
    using lL lB lF by (simp add: T_def nth_logical)
  have pBV: "\<And>i. i < n \<Longrightarrow> logical_and B V ! i = (V ! i \<and> B ! i)"
    and pFV: "\<And>i. i < n \<Longrightarrow> logical_and F V ! i = (V ! i \<and> \<not> B ! i \<and> inlier_nums ! i < 12)"
    and pLV: "\<And>i. i < n \<Longrightarrow> logical_and L V ! i
                = (V ! i \<and> \<not> B ! i \<and> \<not> inlier_nums ! i < 12 \<and> flt (inlier_rates ! i) 10)"
    and pTV: "\<And>i. i < n \<Longrightarrow> logical_and T V ! i
                = (V ! i \<and> \<not> B ! i \<and> \<not> inlier_nums ! i < 12 \<and> \<not> flt (inlier_rates ! i) 10)"
    using lV lB lF lL lT pF pL pT by (auto simp: nth_logical)
  have total: "np_sum (logical_and B V) + np_sum (logical_and F V) + np_sum (logical_and L V)
               + np_sum (logical_and T V) = np_sum V"
  proof -
    have "np_sum (logical_and B V) + np_sum (logical_and F V) + np_sum (logical_and L V)
               + np_sum (logical_and T V)
          = (\<Sum>i<n. of_bool (logical_and B V ! i) + of_bool (logical_and F V ! i)
                    + of_bool (logical_and L V ! i) + of_bool (logical_and T V ! i))"
      using lV lB lF lL lT by (simp add: np_sum_nth sum.distrib)
    also have "\<dots> = (\<Sum>i<n. of_bool (V ! i))"
      by (intro sum.cong) (auto simp: pBV pFV pLV pTV)
    finally show ?thesis using lV by (simp add: np_sum_nth)
  qed
  have disj: "\<forall>i<n. \<not> (logical_and B V ! i \<and> logical_and F V ! i)
      \<and> \<not> (logical_and B V ! i \<and> logical_and L V ! i) \<and> \<not> (logical_and B V ! i \<and> logical_and T V ! i)
      \<and> \<not> (logical_and F V ! i \<and> logical_and L V ! i) \<and> \<not> (logical_and F V ! i \<and> logical_and T V ! i)
      \<and> \<not> (logical_and L V ! i \<and> logical_and T V ! i)"
    by (auto simp: pBV pFV pLV pTV)
  show ?thesis
    apply (rule exI[of _ ?r])
    using res pV pB' pBV pFV pLV pTV total disj
    apply simp
    done
qed


lemma identify_reasons_example:
  "identify_reasons [Num 6, Num 1, Num 7, Num 9, Num (1/10)] [Num 1, Num 20, Num 1, NaN, Num 1]
     [[Num 0, Num 0], [Num 0, Num 50], [Num 10, Num 0], [Num 10, Num 5], [Num 0, Num 0]]
     [0, 5, 30, 30, 40] [Num 0, Num 50, Num 5, Num 50, Num 80]
   = Inr (Some \<lparr>valid = [True, True, True, True, False],
        bn = [True, False, False, False, True],
        bni = [True, False, False, False, False], bnc = [False, False, False, False, True],
        fi = [False, True, False, False, False],
        fii = [False, True, False, False, False], fic = [False, False, False, False, False],
        li = [False, False, True, False, False],
        lii = [False, False, True, False, False], lic = [False, False, False, False, False],
        ot = [False, False, False, True, False],
        oti = [False, False, False, True, False], otc = [False, False, False, False, False]\<rparr>)"
  by (simp add: identify_reasons_def Let_def logical_or_def logical_and_def logical_not_def
      np_gt_def np_lt_def np_any_def np_sum_def fgt_def flt_def row_max_def)

theorem failure_reasons_partition_witness:
  "length [Num 6, Num 1, Num 7, Num 9, Num (1/10)] = 5
   \<and> length [Num 1, Num 20, Num 1, NaN, Num 1] = 5
   \<and> length [[Num 0, Num 0], [Num 0, Num 50], [Num 10, Num 0], [Num 10, Num 5], [Num 0, Num 0]] = 5
   \<and> length [0, 5, 30, 30, 40 :: int] = 5
   \<and> length [Num 0, Num 50, Num 5, Num 50, Num 80] = 5
   \<and> list_all (\<lambda>row. row \<noteq> [])
        [[Num 0, Num 0], [Num 0, Num 50], [Num 10, Num 0], [Num 10, Num 5], [Num 0, Num 0]]
   \<and> np_any (logical_or (np_gt [Num 6, Num 1, Num 7, Num 9, Num (1/10)] 5)
                         (np_gt [Num 1, Num 20, Num 1, NaN, Num 1] 10))
   \<and> (\<exists>r. identify_reasons [Num 6, Num 1, Num 7, Num 9, Num (1/10)]
              [Num 1, Num 20, Num 1, NaN, Num 1]
              [[Num 0, Num 0], [Num 0, Num 50], [Num 10, Num 0], [Num 10, Num 5], [Num 0, Num 0]]
              [0, 5, 30, 30, 40] [Num 0, Num 50, Num 5, Num 50, Num 80] = Inr (Some r)
          \<and> bni r = [True, False, False, False, False]
          \<and> fii r = [False, True, False, False, False]
          \<and> lii r = [False, False, True, False, False]
          \<and> oti r = [False, False, False, True, False]
          \<and> np_sum (bni r) + np_sum (fii r) + np_sum (lii r) + np_sum (oti r) = np_sum (valid r)
          \<and> np_sum (valid r) = 4)"
proof -
  let ?e = "[Num 6, Num 1, Num 7, Num 9, Num (1/10)]"
  let ?er = "[Num 1, Num 20, Num 1, NaN, Num 1]"
  let ?t = "[[Num 0, Num 0], [Num 0, Num 50], [Num 10, Num 0], [Num 10, Num 5], [Num 0, Num 0]]"
  let ?n = "[0, 5, 30, 30, 40 :: int]"
  let ?ir = "[Num 0, Num 50, Num 5, Num 50, Num 80]"
  have h1: "length ?e = 5" and h2: "length ?er = 5" and h3: "length ?t = 5"
    and h4: "length ?n = 5" and h5: "length ?ir = 5"
    by simp_all
  have h6: "list_all (\<lambda>row. row \<noteq> []) ?t" by simp
  have h7: "np_any (logical_or (np_gt ?e 5) (np_gt ?er 10))"
    by (simp add: np_any_def logical_or_def np_gt_def fgt_def)
  from failure_reasons_partition [OF h1 h2 h3 h4 h5 h6 h7] show ?thesis
  proof (elim exE conjE)
    fix r
    assume r: "identify_reasons ?e ?er ?t ?n ?ir = Inr (Some r)"
      and tot: "np_sum (bni r) + np_sum (fii r) + np_sum (lii r) + np_sum (oti r) = np_sum (valid r)"
    from r have req: "r = \<lparr>valid = [True, True, True, True, False],
        bn = [True, False, False, False, True],
        bni = [True, False, False, False, False], bnc = [False, False, False, False, True],
        fi = [False, True, False, False, False],
        fii = [False, True, False, False, False], fic = [False, False, False, False, False],
        li = [False, False, True, False, False],
        lii = [False, False, True, False, False], lic = [False, False, False, False, False],
        ot = [False, False, False, True, False],
        oti = [False, False, False, True, False], otc = [False, False, False, False, False]\<rparr>"
      unfolding identify_reasons_example by simp
    have rv: "bni r = [True, False, False, False, False]"
      "fii r = [False, True, False, False, False]"
      "lii r = [False, False, True, False, False]"
      "oti r = [False, False, False, True, False]"
      "valid r = [True, True, True, True, False]"
      unfolding req by simp_all
    have v4: "np_sum (valid r) = 4" unfolding rv by (simp add: np_sum_def)
    have "identify_reasons ?e ?er ?t ?n ?ir = Inr (Some r)
          \<and> bni r = [True, False, False, False, False]
          \<and> fii r = [False, True, False, False, False]
          \<and> lii r = [False, False, True, False, False]
          \<and> oti r = [False, False, False, True, False]
          \<and> np_sum (bni r) + np_sum (fii r) + np_sum (lii r) + np_sum (oti r) = np_sum (valid r)
          \<and> np_sum (valid r) = 4"
      using r rv(1-4) tot v4 by (intro conjI)
    then have ex: "\<exists>r. identify_reasons ?e ?er ?t ?n ?ir = Inr (Some r)
          \<and> bni r = [True, False, False, False, False]
          \<and> fii r = [False, True, False, False, False]
          \<and> lii r = [False, False, True, False, False]
          \<and> oti r = [False, False, False, True, False]
          \<and> np_sum (bni r) + np_sum (fii r) + np_sum (lii r) + np_sum (oti r) = np_sum (valid r)
          \<and> np_sum (valid r) = 4" ..
    from h1 h2 h3 h4 h5 h6 h7 ex show ?thesis by (intro conjI)
  qed
qed

section \<open>Properties of double\_matching\<close>

lemma double_matching_iff:
  "m \<in> set (double_matching matcher q n)
   \<longleftrightarrow> m \<in> set (matcher q n) \<and> fst m \<in> snd ` set (matcher n q)"
  by (auto simp: double_matching_def Let_def)


lemma double_matching_keeps_mutual:
  "(i, j) \<in> set (matcher q n) \<Longrightarrow> (j, i) \<in> set (matcher n q)
   \<Longrightarrow> (i, j) \<in> set (double_matching matcher q n)"
  by (force simp: double_matching_iff)

text \<open>
  Claim C5.  Bidirectional matching is claimed to keep a forward match (q, d) exactly when
  the reverse search for d points back to q.  The code keeps it when q is the target of
  the reverse match of any database descriptor (\<open>double_matching_iff\<close>), so the output is
  a subset of the forward matches and every mutual pair is kept, but a one-sided pair can
  be kept as well.  Evaluated on query descriptors 0, 5 and database descriptors 4, -6:
  the forward match (0, 0) is kept although the reverse search for database descriptor 0
  gives query descriptor 1, because database descriptor 1 points to query descriptor 0.
\<close>

theorem double_matching_keeps_one_sided:
  "nn_match [0, 5] [4, -6] = [(0, 0), (1, 0)]
   \<and> nn_match [4, -6] [0, 5] = [(0, 1), (1, 0)]
   \<and> double_matching nn_match [0, 5] [4, -6] = [(0, 0), (1, 0)]"
  by code_simp

section \<open>Properties of match\_local with refiltering\<close>


lemma np_take_ok:
  "list_all (\<lambda>j. j < length xs) js \<Longrightarrow> np_take xs js = Inr (map (\<lambda>j. xs ! j) js)"
  by (simp add: np_take_def)


















text \<open>
  Outside the hypotheses of the amended claim the function raises.  In verification mode
  with a query record of one keypoint, \<open>pt_ids_o\<close> is empty and the count raises
  \<open>IndexError\<close>; a negative query id is no key of \<open>images\<close>; and a negative member
  image id has no row in the descriptor table.
\<close>

lemma match_local_verify_raises:
  "match_local (\<lambda>ds. ds) nn_match False True (Some 7) (verify_images [21]) three_images_desc
       example_points [1] ''a'' [[1, 2], [3, 7]] = Inl IndexError
   \<and> match_local (\<lambda>ds. ds) nn_match False True (Some (- 7)) (verify_images [21, - 1])
       three_images_desc example_points [1] ''a'' [[1, 2], [3, 7]] = Inl KeyError
   \<and> match_local (\<lambda>ds. ds) nn_match False True None three_images three_images_desc
       example_points [1] ''a'' [[1, 2], [- 3]] = Inl StopIteration"
  by code_simp





section \<open>Properties of the pose step and of the loop over the queries\<close>


lemma pose_step_few:
  "length xyz < 5 \<Longrightarrow>
   pose_step cv min_inliers xyz kps camera_matrix distortion_coeff
   = Inr \<lparr>ok = False, num_inliers = 0, inlier_ratio = 0, refined = None, cv_calls = []\<rparr>"
  by (simp add: pose_step_def)

lemma pose_step_ransac:
  assumes "5 \<le> length xyz"
    and "solvePnPRansac cv xyz kps camera_matrix distortion_coeff = (s, p, inl)"
    and "pose_step cv min_inliers xyz kps camera_matrix distortion_coeff = Inr out"
  shows "RansacCall \<in> set (cv_calls out)
     \<and> num_inliers out = (case inl of None \<Rightarrow> 0 | Some js \<Rightarrow> length js)
     \<and> (refined out \<noteq> None) = (s \<and> min_inliers \<le> int (num_inliers out))
     \<and> (RefineCall \<in> set (cv_calls out)) = (refined out \<noteq> None)
     \<and> (ok out \<longrightarrow> refined out \<noteq> None)"
proof -
  from assms(1) have g: "4 < length xyz" by simp
  show ?thesis
    using assms(3) unfolding pose_step_def
    by (cases inl)
       (auto simp: g assms(2) select_inliers_def split: if_splits sum.splits prod.splits)
qed


lemma process_query_few:
  assumes "length (matched_pts_xyz q) < 5"
    and "process_query verify min_inliers cv camera_matrices backfall_cm pose_error s query_id q = Inr s'"
  shows "out_file s' = out_file s \<and> cur_pose s' = cur_pose s \<and> calls s' = calls s
         \<and> nums s' = nums s @ [0]"
  using assms(2) unfolding process_query_def
  by (auto simp: pose_step_few[OF assms(1)] Let_def split: sum.splits prod.splits if_splits option.splits)

lemma process_query_written:
  assumes "process_query False min_inliers cv camera_matrices backfall_cm pose_error s query_id q = Inr s'"
    and "out_file s' \<noteq> out_file s"
  shows "5 \<le> length (matched_pts_xyz q) \<and> min_inliers \<le> int (last (nums s'))
         \<and> (query_id, RefineCall) \<in> set (calls s')"
proof -
  from assms(1) obtain camera_matrix distortion_coeff cm' out
    where si: "select_intrinsics camera_matrices backfall_cm (cur_cm s) (query_path q)
               = Inr (camera_matrix, distortion_coeff, cm')"
      and ps: "pose_step cv min_inliers (matched_pts_xyz q) (matched_keypoints q)
                 camera_matrix distortion_coeff = Inr out"
    unfolding process_query_def by (auto split: sum.splits prod.splits)
  from assms si ps have okout: "ok out" and n: "nums s' = nums s @ [num_inliers out]"
    and c: "calls s' = calls s @ map (\<lambda>c. (query_id, c)) (cv_calls out)"
    unfolding process_query_def
    by (auto simp: Let_def split: if_splits option.splits)
  have five: "5 \<le> length (matched_pts_xyz q)"
  proof (rule ccontr)
    assume "\<not> 5 \<le> length (matched_pts_xyz q)"
    then have "length (matched_pts_xyz q) < 5" by simp
    from pose_step_few[OF this, of cv min_inliers "matched_keypoints q" camera_matrix distortion_coeff] ps okout
    show False by simp
  qed
  obtain s0 p0 inl where r: "solvePnPRansac cv (matched_pts_xyz q) (matched_keypoints q)
      camera_matrix distortion_coeff = (s0, p0, inl)"
    by (cases "solvePnPRansac cv (matched_pts_xyz q) (matched_keypoints q) camera_matrix distortion_coeff")
  from pose_step_ransac[OF five r ps] okout
  have "min_inliers \<le> int (num_inliers out)" and "RefineCall \<in> set (cv_calls out)"
    by auto
  with five n c show ?thesis by auto
qed

text \<open>
  Claim C1.  For every query: with fewer than 5 correspondences no PnP-RANSAC is attempted
  and no pose is produced (no solver call, no refined pose, success false, no output
  line); and when RANSAC runs (5 or more correspondences), its candidate is accepted and
  the refinement run exactly when RANSAC reported success and the inlier count is at
  least \<open>min_inliers\<close>, otherwise the query fails with no pose.  An output line is written
  only for a query with 5 or more correspondences, at least \<open>min_inliers\<close> inliers and a
  refinement call.
\<close>

theorem pose_solver_gates:
  "(length xyz < 5 \<longrightarrow>
      pose_step cv min_inliers xyz kps camera_matrix distortion_coeff
      = Inr \<lparr>ok = False, num_inliers = 0, inlier_ratio = 0, refined = None, cv_calls = []\<rparr>)
   \<and> (5 \<le> length xyz
        \<and> pose_step cv min_inliers xyz kps camera_matrix distortion_coeff = Inr out \<longrightarrow>
        RansacCall \<in> set (cv_calls out)
      \<and> num_inliers out
          = (case snd (snd (solvePnPRansac cv xyz kps camera_matrix distortion_coeff)) of
               None \<Rightarrow> 0 | Some js \<Rightarrow> length js)
      \<and> (refined out \<noteq> None)
          = (fst (solvePnPRansac cv xyz kps camera_matrix distortion_coeff)
             \<and> min_inliers \<le> int (num_inliers out))
      \<and> (RefineCall \<in> set (cv_calls out)) = (refined out \<noteq> None)
      \<and> (ok out \<longrightarrow> refined out \<noteq> None))
   \<and> (length (matched_pts_xyz q) < 5
        \<and> process_query verify min_inliers cv camera_matrices backfall_cm pose_error s query_id q
            = Inr s' \<longrightarrow>
        out_file s' = out_file s \<and> cur_pose s' = cur_pose s \<and> calls s' = calls s
      \<and> nums s' = nums s @ [0])
   \<and> (process_query False min_inliers cv camera_matrices backfall_cm pose_error s query_id q
            = Inr s''
        \<and> out_file s'' \<noteq> out_file s \<longrightarrow>
        5 \<le> length (matched_pts_xyz q) \<and> min_inliers \<le> int (last (nums s''))
      \<and> (query_id, RefineCall) \<in> set (calls s''))"
proof -
  have p1: "length xyz < 5 \<longrightarrow>
      pose_step cv min_inliers xyz kps camera_matrix distortion_coeff
      = Inr \<lparr>ok = False, num_inliers = 0, inlier_ratio = 0, refined = None, cv_calls = []\<rparr>"
    by (simp add: pose_step_few)
  have p2: "5 \<le> length xyz
        \<and> pose_step cv min_inliers xyz kps camera_matrix distortion_coeff = Inr out \<longrightarrow>
        RansacCall \<in> set (cv_calls out)
      \<and> num_inliers out
          = (case snd (snd (solvePnPRansac cv xyz kps camera_matrix distortion_coeff)) of
               None \<Rightarrow> 0 | Some js \<Rightarrow> length js)
      \<and> (refined out \<noteq> None)
          = (fst (solvePnPRansac cv xyz kps camera_matrix distortion_coeff)
             \<and> min_inliers \<le> int (num_inliers out))
      \<and> (RefineCall \<in> set (cv_calls out)) = (refined out \<noteq> None)
      \<and> (ok out \<longrightarrow> refined out \<noteq> None)"
  proof
    assume a: "5 \<le> length xyz
        \<and> pose_step cv min_inliers xyz kps camera_matrix distortion_coeff = Inr out"
    obtain s0 p0 inl where r: "solvePnPRansac cv xyz kps camera_matrix distortion_coeff = (s0, p0, inl)"
      by (cases "solvePnPRansac cv xyz kps camera_matrix distortion_coeff")
    from a have a1: "5 \<le> length xyz"
      and a2: "pose_step cv min_inliers xyz kps camera_matrix distortion_coeff = Inr out"
      by simp_all
    from pose_step_ransac[OF a1 r a2]
    show "RansacCall \<in> set (cv_calls out)
      \<and> num_inliers out
          = (case snd (snd (solvePnPRansac cv xyz kps camera_matrix distortion_coeff)) of
               None \<Rightarrow> 0 | Some js \<Rightarrow> length js)
      \<and> (refined out \<noteq> None)
          = (fst (solvePnPRansac cv xyz kps camera_matrix distortion_coeff)
             \<and> min_inliers \<le> int (num_inliers out))
      \<and> (RefineCall \<in> set (cv_calls out)) = (refined out \<noteq> None)
      \<and> (ok out \<longrightarrow> refined out \<noteq> None)"
      unfolding r fst_conv snd_conv .
  qed
  have p3: "length (matched_pts_xyz q) < 5
        \<and> process_query verify min_inliers cv camera_matrices backfall_cm pose_error s query_id q
            = Inr s' \<longrightarrow>
        out_file s' = out_file s \<and> cur_pose s' = cur_pose s \<and> calls s' = calls s
      \<and> nums s' = nums s @ [0]"
  proof (intro impI, elim conjE)
    assume "length (matched_pts_xyz q) < 5"
      and "process_query verify min_inliers cv camera_matrices backfall_cm pose_error s query_id q
            = Inr s'"
    then show "out_file s' = out_file s \<and> cur_pose s' = cur_pose s \<and> calls s' = calls s
      \<and> nums s' = nums s @ [0]"
      by (rule process_query_few)
  qed
  have p4: "process_query False min_inliers cv camera_matrices backfall_cm pose_error s query_id q
            = Inr s''
        \<and> out_file s'' \<noteq> out_file s \<longrightarrow>
        5 \<le> length (matched_pts_xyz q) \<and> min_inliers \<le> int (last (nums s''))
      \<and> (query_id, RefineCall) \<in> set (calls s'')"
  proof (intro impI, elim conjE)
    assume "process_query False min_inliers cv camera_matrices backfall_cm pose_error s query_id q
            = Inr s''"
      and "out_file s'' \<noteq> out_file s"
    then show "5 \<le> length (matched_pts_xyz q) \<and> min_inliers \<le> int (last (nums s''))
      \<and> (query_id, RefineCall) \<in> set (calls s'')"
      by (rule process_query_written)
  qed
  from p1 p2 p3 p4 show ?thesis by (intro conjI)
qed


lemma pose_step_example_few:
  "pose_step cv_example 5 [10, 20, 30, 40] ''abcd'' () 0
   = Inr \<lparr>ok = False, num_inliers = 0, inlier_ratio = 0, refined = None, cv_calls = []\<rparr>"
  by (simp add: pose_step_def)

lemma pose_step_example_six:
  "pose_step cv_example 5 [10, 20, 30, 40, 50, 60] ''abcdef'' () 0
   = Inr \<lparr>ok = True, num_inliers = 5, inlier_ratio = 5 / 6, refined = Some 10,
          cv_calls = [RansacCall, RefineCall]\<rparr>"
  by (simp add: pose_step_def cv_example_def select_inliers_def np_take_def)

lemma process_query_example_few:
  "process_query False 5 cv_example [(''query/a.jpg'', \<lparr>cameraMatrix = (), rad_dist = 0\<rparr>)] ()
     (\<lambda>i p. (Num 0, Num 0)) start_state 0 (query_example [10, 20, 30, 40] ''abcd'')
   = Inr (start_state\<lparr>cur_cm := Some \<lparr>cameraMatrix = (), rad_dist = 0\<rparr>,
                      rates := [0], nums := [0]\<rparr>)"
  by (simp add: process_query_def select_intrinsics_def query_example_def start_state_def
      pose_step_def)

lemma process_query_example_six:
  "process_query False 5 cv_example [(''query/a.jpg'', \<lparr>cameraMatrix = (), rad_dist = 0\<rparr>)] ()
     (\<lambda>i p. (Num 0, Num 0)) start_state 0 (query_example [10, 20, 30, 40, 50, 60] ''abcdef'')
   = Inr (start_state\<lparr>cur_cm := Some \<lparr>cameraMatrix = (), rad_dist = 0\<rparr>,
                      cur_pose := Some 10, rates := [100 * (5 / 6)], nums := [5],
                      out_file := [(''a.jpg'', 10)],
                      calls := [(0, RansacCall), (0, RefineCall)]\<rparr>)"
  by (simp add: process_query_def select_intrinsics_def query_example_def start_state_def
      pose_step_example_six)

theorem pose_solver_gates_witness:
  "length [10, 20, 30, 40 :: nat] < 5
   \<and> pose_step cv_example 5 [10, 20, 30, 40] ''abcd'' () 0
       = Inr \<lparr>ok = False, num_inliers = 0, inlier_ratio = 0, refined = None, cv_calls = []\<rparr>
   \<and> 5 \<le> length [10, 20, 30, 40, 50, 60 :: nat]
   \<and> pose_step cv_example 5 [10, 20, 30, 40, 50, 60] ''abcdef'' () 0
       = Inr \<lparr>ok = True, num_inliers = 5, inlier_ratio = 5 / 6, refined = Some 10,
              cv_calls = [RansacCall, RefineCall]\<rparr>
   \<and> fst (solvePnPRansac cv_example [10, 20, 30, 40, 50, 60] ''abcdef'' () 0)
   \<and> (5 :: int) \<le> int 5
   \<and> out_file (start_state\<lparr>cur_cm := Some \<lparr>cameraMatrix = (), rad_dist = 0\<rparr>,
                             rates := [0], nums := [0]\<rparr>) = out_file start_state
   \<and> (0, RefineCall) \<in> set (calls (start_state\<lparr>cur_cm := Some \<lparr>cameraMatrix = (), rad_dist = 0\<rparr>,
                      cur_pose := Some 10, rates := [100 * (5 / 6)], nums := [5],
                      out_file := [(''a.jpg'', 10)],
                      calls := [(0, RansacCall), (0, RefineCall)]\<rparr>))"
proof -
  let ?cms = "[(''query/a.jpg'', \<lparr>cameraMatrix = (), rad_dist = 0\<rparr>)]"
  let ?pe = "\<lambda>(i :: nat) (p :: nat). (Num 0, Num 0)"
  let ?out6 = "\<lparr>ok = True, num_inliers = 5, inlier_ratio = 5 / 6, refined = Some (10 :: nat),
              cv_calls = [RansacCall, RefineCall]\<rparr>"
  let ?s4 = "start_state\<lparr>cur_cm := Some \<lparr>cameraMatrix = (), rad_dist = 0\<rparr>,
                      rates := [0], nums := [0]\<rparr>"
  let ?s6 = "start_state\<lparr>cur_cm := Some \<lparr>cameraMatrix = (), rad_dist = 0\<rparr>,
                      cur_pose := Some 10, rates := [100 * (5 / 6)], nums := [5],
                      out_file := [(''a.jpg'', 10)],
                      calls := [(0, RansacCall), (0, RefineCall)]\<rparr>"
  have h1: "length [10, 20, 30, 40 :: nat] < 5" by simp
  have h2: "5 \<le> length [10, 20, 30, 40, 50, 60 :: nat]" by simp
  have h3: "length (matched_pts_xyz (query_example [10, 20, 30, 40] ''abcd'')) < 5"
    by (simp add: query_example_def)
  have h4: "out_file ?s6 \<noteq> out_file start_state" by (simp add: start_state_def)
  note a = pose_solver_gates [where xyz = "[10, 20, 30, 40]" and cv = cv_example
      and min_inliers = 5 and kps = "''abcd''" and camera_matrix = "()" and distortion_coeff = 0
      and q = "query_example [10, 20, 30, 40] ''abcd''" and verify = False
      and camera_matrices = ?cms and backfall_cm = "()" and pose_error = ?pe
      and s = start_state and query_id = 0 and s' = ?s4]
  note b = pose_solver_gates [where xyz = "[10, 20, 30, 40, 50, 60]" and cv = cv_example
      and min_inliers = 5 and kps = "''abcdef''" and camera_matrix = "()" and distortion_coeff = 0
      and out = ?out6
      and q = "query_example [10, 20, 30, 40, 50, 60] ''abcdef''"
      and camera_matrices = ?cms and backfall_cm = "()" and pose_error = ?pe
      and s = start_state and query_id = 0 and s'' = ?s6]
  have w1: "pose_step cv_example 5 [10, 20, 30, 40] ''abcd'' () 0
       = Inr \<lparr>ok = False, num_inliers = 0, inlier_ratio = 0, refined = None, cv_calls = []\<rparr>"
    by (rule a [THEN conjunct1, THEN mp, OF h1])
  note g2 = b [THEN conjunct2, THEN conjunct1, THEN mp, OF conjI [OF h2 pose_step_example_six]]
  from g2 have w2: "(refined ?out6 \<noteq> None)
          = (fst (solvePnPRansac cv_example [10, 20, 30, 40, 50, 60] ''abcdef'' () 0)
             \<and> (5 :: int) \<le> int (num_inliers ?out6))"
    by (rule conjunct1 [OF conjunct2 [OF conjunct2]])
  then have w2a: "fst (solvePnPRansac cv_example [10, 20, 30, 40, 50, 60] ''abcdef'' () 0)"
    and w2b: "(5 :: int) \<le> int 5" by simp_all
  have w3: "out_file ?s4 = out_file start_state"
    by (rule a [THEN conjunct2, THEN conjunct2, THEN conjunct1, THEN mp,
          OF conjI [OF h3 process_query_example_few], THEN conjunct1])
  have w4: "(0, RefineCall) \<in> set (calls ?s6)"
    by (rule b [THEN conjunct2, THEN conjunct2, THEN conjunct2, THEN mp,
          OF conjI [OF process_query_example_six h4], THEN conjunct2, THEN conjunct2])
  from h1 w1 h2 pose_step_example_six w2a w2b w3 w4 show ?thesis
    by (intro conjI)
qed


lemma select_intrinsics_known:
  "map_of camera_matrices path = Some entry \<Longrightarrow>
   select_intrinsics camera_matrices backfall_cm cm path
   = Inr (cameraMatrix entry, rad_dist entry, Some entry)"
  by (simp add: select_intrinsics_def)

lemma select_intrinsics_fallback:
  "map_of camera_matrices path = None \<Longrightarrow>
   select_intrinsics camera_matrices backfall_cm (Some earlier) path
   = Inr (backfall_cm, rad_dist earlier, Some earlier)"
  by (simp add: select_intrinsics_def)

lemma select_intrinsics_unbound:
  "map_of camera_matrices path = None \<Longrightarrow>
   select_intrinsics camera_matrices backfall_cm None path = Inl UnboundLocalError"
  by (simp add: select_intrinsics_def)

lemma process_query_verify_unbound:
  assumes "length (matched_pts_xyz q) < 5" and "cur_pose s = None"
  shows "\<exists>e. process_query True min_inliers cv camera_matrices backfall_cm pose_error s query_id q
             = Inl e"
  using assms unfolding process_query_def
  by (auto simp: pose_step_few Let_def split: sum.splits prod.splits)

lemma process_query_verify_stale:
  assumes "length (matched_pts_xyz q) < 5" and "cur_pose s = Some p"
    and "process_query True min_inliers cv camera_matrices backfall_cm pose_error s query_id q
         = Inr s'"
  shows "errs s' = errs s @ [pose_error query_id p]"
  using assms unfolding process_query_def
  by (auto simp: pose_step_few Let_def split: sum.splits prod.splits)

text \<open>
  Claim C7.  A per-query failure is claimed never to end the run.  In verification mode
  the errors are computed from \<open>quat\<close> and \<open>position\<close> after the \<open>if success\<close> block,
  for a failed query as well: when the first query of a batch fails (here: no
  correspondence at all), the names are not bound and the run ends with
  \<open>UnboundLocalError\<close>, whatever queries follow.  After an earlier success a failed query
  is recorded with the errors of the previous pose (\<open>process_query_verify_stale\<close>).
  Outside verification mode, with known intrinsics, every query returns and a failed one
  writes no line (\<open>query_loop_returns\<close>, \<open>process_query_returns\<close>).
\<close>

theorem verify_failed_first_query_raises:
  "local_matching True min_inliers cv np_median [(''db/1.jpg'', entry)] pose_error
     (\<lparr>query_name = ''1.jpg'', query_path = ''db/1.jpg'',
       matched_pts_xyz = [], matched_keypoints = []\<rparr> # qs)
   = Inl UnboundLocalError"
  by (simp add: local_matching_def process_query_def select_intrinsics_def pose_step_def)

text \<open>
  Claim C8.  A query without an entry in the intrinsics table is claimed to proceed with
  the median camera matrix.  The code takes the median matrix, but reads the distortion
  coefficient from \<open>cm\<close>, which only the other branch binds: when no earlier query of the
  run had known intrinsics, the run ends with \<open>UnboundLocalError\<close>, in either mode and
  whatever the correspondences.  After an earlier query with known intrinsics the query
  proceeds with the median matrix and that earlier query's distortion coefficient
  (\<open>select_intrinsics_fallback\<close>).
\<close>

theorem missing_intrinsics_first_query_raises:
  "local_matching verify min_inliers cv np_median [(''db/1.jpg'', entry)] pose_error
     (\<lparr>query_name = name, query_path = ''query/a.jpg'',
       matched_pts_xyz = xyz, matched_keypoints = kps\<rparr> # qs)
   = Inl UnboundLocalError"
  by (simp add: local_matching_def process_query_def select_intrinsics_def)

lemma pose_step_returns:
  assumes "ransac_sound cv q"
  shows "\<exists>out. pose_step cv min_inliers (matched_pts_xyz q) (matched_keypoints q)
                 camera_matrix distortion_coeff = Inr out
             \<and> (ok out \<longrightarrow> refined out \<noteq> None)"
proof (cases "4 < length (matched_pts_xyz q)")
  case False
  then show ?thesis by (simp add: pose_step_def)
next
  case True
  obtain s0 p0 inl where r: "solvePnPRansac cv (matched_pts_xyz q) (matched_keypoints q)
      camera_matrix distortion_coeff = (s0, p0, inl)"
    by (cases "solvePnPRansac cv (matched_pts_xyz q) (matched_keypoints q) camera_matrix distortion_coeff")
  from assms have len: "length (matched_keypoints q) = length (matched_pts_xyz q)"
    by (simp add: ransac_sound_def)
  from assms r have inr: "case inl of None \<Rightarrow> True
      | Some js \<Rightarrow> list_all (\<lambda>j. j < length (matched_pts_xyz q)) js"
    unfolding ransac_sound_def by (metis snd_conv)
  show ?thesis
  proof (cases inl)
    case None
    with True r show ?thesis
      by (cases "solvePnP cv (matched_pts_xyz q) (matched_keypoints q) camera_matrix distortion_coeff p0")
         (auto simp: pose_step_def select_inliers_def)
  next
    case (Some js)
    with inr have ok_js: "list_all (\<lambda>j. j < length (matched_pts_xyz q)) js" by simp
    then have t1: "np_take (matched_pts_xyz q) js = Inr (map (\<lambda>j. matched_pts_xyz q ! j) js)"
      by (simp add: np_take_def)
    from ok_js len have t2: "np_take (matched_keypoints q) js = Inr (map (\<lambda>j. matched_keypoints q ! j) js)"
      by (simp add: np_take_def)
    have ne: "length (matched_keypoints q) \<noteq> 0"
    proof
      assume "length (matched_keypoints q) = 0"
      with len have "length (matched_pts_xyz q) = 0" by simp
      with True show False by simp
    qed
    show ?thesis
      using True r Some ne t1 t2
      by (cases "solvePnP cv (map (\<lambda>j. matched_pts_xyz q ! j) js)
                   (map (\<lambda>j. matched_keypoints q ! j) js) camera_matrix distortion_coeff p0")
         (auto simp: pose_step_def select_inliers_def)
  qed
qed

lemma process_query_returns:
  assumes "ransac_sound cv q" and "map_of camera_matrices (query_path q) \<noteq> None"
  shows "\<exists>s'. process_query False min_inliers cv camera_matrices backfall_cm pose_error s query_id q
              = Inr s'
           \<and> length (nums s') = Suc (length (nums s))
           \<and> (out_file s' = out_file s \<or> (\<exists>p. out_file s' = out_file s @ [(query_name q, p)]))"
proof -
  from assms(2) obtain entry where e: "map_of camera_matrices (query_path q) = Some entry" by auto
  note si = select_intrinsics_known[OF e, of backfall_cm "cur_cm s"]
  from pose_step_returns[OF assms(1), of min_inliers "cameraMatrix entry" "rad_dist entry"]
  obtain out where ps: "pose_step cv min_inliers (matched_pts_xyz q) (matched_keypoints q)
                 (cameraMatrix entry) (rad_dist entry) = Inr out"
    and okr: "ok out \<longrightarrow> refined out \<noteq> None" by blast
  show ?thesis
    using okr
    by (cases "refined out") (auto simp: process_query_def si ps Let_def)
qed

lemma query_loop_returns:
  assumes "list_all (ransac_sound cv) qs"
    and "list_all (\<lambda>q. map_of camera_matrices (query_path q) \<noteq> None) qs"
  shows "\<exists>s'. query_loop (process_query False min_inliers cv camera_matrices backfall_cm pose_error)
                 s query_id qs = Inr s'
           \<and> length (nums s') = length (nums s) + length qs"
  using assms
proof (induction qs arbitrary: s query_id)
  case Nil
  then show ?case by simp
next
  case (Cons q qs)
  from Cons.prems have q1: "ransac_sound cv q" and q2: "map_of camera_matrices (query_path q) \<noteq> None"
    and r1: "list_all (ransac_sound cv) qs"
    and r2: "list_all (\<lambda>q. map_of camera_matrices (query_path q) \<noteq> None) qs"
    by simp_all
  from process_query_returns[OF q1 q2, of min_inliers backfall_cm pose_error s query_id]
  obtain s1 where s1: "process_query False min_inliers cv camera_matrices backfall_cm pose_error
                         s query_id q = Inr s1"
    and n1: "length (nums s1) = Suc (length (nums s))" by blast
  from Cons.IH[OF r1 r2, of s1 "Suc query_id"] obtain s' where
    "query_loop (process_query False min_inliers cv camera_matrices backfall_cm pose_error)
        s1 (Suc query_id) qs = Inr s'" and "length (nums s') = length (nums s1) + length qs"
    by blast
  with s1 n1 show ?case by simp
qed


lemma local_matching_returns:
  assumes "camera_matrices \<noteq> []"
    and "list_all (ransac_sound cv) qs"
    and "list_all (\<lambda>q. map_of camera_matrices (query_path q) \<noteq> None) qs"
  shows "\<exists>s'. local_matching False min_inliers cv np_median camera_matrices pose_error qs = Inr s'
           \<and> length (nums s') = length qs"
proof -
  note r = query_loop_returns [OF assms(2) assms(3), where min_inliers = min_inliers
      and backfall_cm = "np_median (map (\<lambda>entry. cameraMatrix (snd entry)) camera_matrices)"
      and pose_error = pose_error and query_id = 0
      and s = "\<lparr>cur_cm = None, cur_pose = None, rates = [], nums = [], errs = [],
                 out_file = [], calls = []\<rparr>"]
  from r assms(1) show ?thesis
    by (simp add: local_matching_def)
qed

section \<open>Properties of PointCloudSplit\<close>

lemma split_loop_filter:
  "split \<noteq> 0 \<Longrightarrow>
   split_loop val split xs acc = Inr (acc @ filter (\<lambda>i. (int i mod split = 0) = val) xs)"
  by (induction xs arbitrary: acc) auto

lemma PointCloudSplit_init_selected:
  "split \<noteq> 0 \<Longrightarrow>
   PointCloudSplit_init pl val split = Inr \<lparr>point_list = pl, idcs = selected val split (length pl)\<rparr>"
  by (simp add: PointCloudSplit_init_def split_loop_filter selected_def)

lemma selected_nth_less: "k < length (selected val split n) \<Longrightarrow> selected val split n ! k < n"
proof -
  assume "k < length (selected val split n)"
  then have "selected val split n ! k \<in> set (selected val split n)"
    by (rule nth_mem)
  then show ?thesis
    by (simp add: selected_def)
qed

lemma selected_partition:
  "set (selected True split n) \<inter> set (selected False split n) = {}"
  "set (selected True split n) \<union> set (selected False split n) = {0..<n}"
  "length (selected True split n) + length (selected False split n) = n"
proof -
  show "set (selected True split n) \<inter> set (selected False split n) = {}"
    by (auto simp: selected_def)
  show "set (selected True split n) \<union> set (selected False split n) = {0..<n}"
    by (auto simp: selected_def)
  have "length (filter (\<lambda>i. int i mod split = 0) [0..<n])
        + length (filter (\<lambda>i. \<not> int i mod split = 0) [0..<n]) = length [0..<n]"
    by (rule sum_length_filter_compl)
  then show "length (selected True split n) + length (selected False split n) = n"
    by (simp add: selected_def)
qed

lemma getitem_selected:
  assumes "k < length (selected val split (length pl))"
  shows "PointCloudSplit_getitem \<lparr>point_list = pl, idcs = selected val split (length pl)\<rparr> (int k)
         = Inr (pl ! (selected val split (length pl) ! k))"
  using assms selected_nth_less [OF assms]
  by (simp add: PointCloudSplit_getitem_def py_index_def)

text \<open>
  Claim C10.  For every \<open>point_list\<close> and every split value \<open>s \<ge> 1\<close>, the validation
  split (\<open>val=True\<close>) holds exactly the indices divisible by \<open>s\<close> and the training split
  (\<open>val=False\<close>) the others, both in ascending order: the two index sets are disjoint,
  their union is every index of \<open>point_list\<close>, the two lengths add up to
  \<open>len(point_list)\<close>, and \<open>__getitem__\<close> at position \<open>k\<close> of either split returns the
  element of \<open>point_list\<close> at the \<open>k\<close>-th selected index.
\<close>

theorem PointCloudSplit_partition:
  assumes "1 \<le> s"
  shows "\<exists>v t. PointCloudSplit_init pl True s = Inr v \<and> PointCloudSplit_init pl False s = Inr t
     \<and> point_list v = pl \<and> point_list t = pl
     \<and> idcs v = filter (\<lambda>i. int i mod s = 0) [0..<length pl]
     \<and> idcs t = filter (\<lambda>i. int i mod s \<noteq> 0) [0..<length pl]
     \<and> set (idcs v) \<inter> set (idcs t) = {}
     \<and> set (idcs v) \<union> set (idcs t) = {0..<length pl}
     \<and> PointCloudSplit_len v + PointCloudSplit_len t = length pl
     \<and> (\<forall>k < PointCloudSplit_len v. PointCloudSplit_getitem v (int k) = Inr (pl ! (idcs v ! k)))
     \<and> (\<forall>k < PointCloudSplit_len t. PointCloudSplit_getitem t (int k) = Inr (pl ! (idcs t ! k)))"
proof -
  from assms have nz: "s \<noteq> 0" by simp
  let ?v = "\<lparr>point_list = pl, idcs = selected True s (length pl)\<rparr>"
  let ?t = "\<lparr>point_list = pl, idcs = selected False s (length pl)\<rparr>"
  have iv: "PointCloudSplit_init pl True s = Inr ?v"
    and it: "PointCloudSplit_init pl False s = Inr ?t"
    using nz by (simp_all add: PointCloudSplit_init_selected)
  have fv: "idcs ?v = filter (\<lambda>i. int i mod s = 0) [0..<length pl]"
    and ft: "idcs ?t = filter (\<lambda>i. int i mod s \<noteq> 0) [0..<length pl]"
    by (simp_all add: selected_def)
  have dj: "set (idcs ?v) \<inter> set (idcs ?t) = {}"
    and un: "set (idcs ?v) \<union> set (idcs ?t) = {0..<length pl}"
    and ln: "PointCloudSplit_len ?v + PointCloudSplit_len ?t = length pl"
    by (simp_all add: selected_partition PointCloudSplit_len_def)
  have gv: "\<forall>k < PointCloudSplit_len ?v. PointCloudSplit_getitem ?v (int k) = Inr (pl ! (idcs ?v ! k))"
    by (simp add: PointCloudSplit_len_def getitem_selected)
  have gt: "\<forall>k < PointCloudSplit_len ?t. PointCloudSplit_getitem ?t (int k) = Inr (pl ! (idcs ?t ! k))"
    by (simp add: PointCloudSplit_len_def getitem_selected)
  have pv: "point_list ?v = pl" and pt: "point_list ?t = pl"
    by simp_all
  from iv it pv pt fv ft dj un ln gv gt show ?thesis
    by blast
qed

theorem PointCloudSplit_partition_witness:
  "(1::int) \<le> 2
   \<and> (\<exists>v t. PointCloudSplit_init ''abcde'' True 2 = Inr v
        \<and> PointCloudSplit_init ''abcde'' False 2 = Inr t
        \<and> idcs v = [0, 2, 4] \<and> idcs t = [1, 3]
        \<and> PointCloudSplit_len v + PointCloudSplit_len t = 5
        \<and> PointCloudSplit_getitem v 1 = Inr CHR ''c''
        \<and> PointCloudSplit_getitem t 1 = Inr CHR ''d'')"
proof -
  have h: "(1::int) \<le> 2" by simp
  from PointCloudSplit_partition [OF h, of "''abcde''"]
  obtain v t where init: "PointCloudSplit_init ''abcde'' True 2 = Inr v"
      "PointCloudSplit_init ''abcde'' False 2 = Inr t"
    and iv: "idcs v = filter (\<lambda>i. int i mod 2 = 0) [0..<length ''abcde'']"
    and it: "idcs t = filter (\<lambda>i. int i mod 2 \<noteq> 0) [0..<length ''abcde'']"
    and ln: "PointCloudSplit_len v + PointCloudSplit_len t = length ''abcde''"
    and gv: "\<forall>k < PointCloudSplit_len v. PointCloudSplit_getitem v (int k) = Inr (''abcde'' ! (idcs v ! k))"
    and gt: "\<forall>k < PointCloudSplit_len t. PointCloudSplit_getitem t (int k) = Inr (''abcde'' ! (idcs t ! k))"
    by blast
  have up: "[0..<5] = [0, 1, 2, 3, 4]"
    by (simp add: upt_rec)
  have iv': "idcs v = [0, 2, 4]" using iv by (simp add: up)
  have it': "idcs t = [1, 3]" using it by (simp add: up)
  have "1 < PointCloudSplit_len v"
    using iv' by (simp add: PointCloudSplit_len_def)
  with gv have "PointCloudSplit_getitem v (int 1) = Inr (''abcde'' ! (idcs v ! 1))"
    by blast
  then have g1: "PointCloudSplit_getitem v 1 = Inr CHR ''c''"
    using iv' by simp
  have "1 < PointCloudSplit_len t"
    using it' by (simp add: PointCloudSplit_len_def)
  with gt have "PointCloudSplit_getitem t (int 1) = Inr (''abcde'' ! (idcs t ! 1))"
    by blast
  then have g2: "PointCloudSplit_getitem t 1 = Inr CHR ''d''"
    using it' by simp
  from h init iv' it' ln g1 g2 show ?thesis
    by auto
qed

end
